theory Spec2Isabelle
  imports Complex_Main "HOL-Library.Log_Nat"
begin

section \<open>Data model of \<open>space_shooter.js\<close>\<close>

text \<open>
  JavaScript numbers are \<^typ>\<open>real\<close>. Inside the simulation the arithmetic is exact;
  the time arithmetic of \<open>loop\<close>, where the claims depend on rounding, is the binary64
  arithmetic of the language (section \<open>loop\<close> below). Counters that only ever hold natural
  numbers are \<^typ>\<open>nat\<close>, the controller axes are \<^typ>\<open>int\<close>. Objects live in an explicit store \<open>heap\<close> (address to object);
  a JavaScript reference is an address. The DOM side effects (\<open>healthAmount.innerHTML\<close>,
  \<open>game_state.innerHTML\<close>, the canvas) are not part of the state.
\<close>

record xy =
  xc :: real
  yc :: real

record wh =
  width :: real
  height :: real

record controller =
  move_x :: int
  move_y :: int
  action_1 :: bool

datatype body_class = Player | Enemy | projectile

text \<open>
  One record for \<open>Body\<close> and its three subclasses: \<open>cls\<close> is the class of the object,
  \<open>speed\<close> is the field each subclass declares, and \<open>controller\<close>, \<open>raw_input\<close>,
  \<open>timer\<close>, \<open>spawnRate\<close> are the fields of \<open>Player\<close> (never read on another class).
  \<open>raw_input k\<close> holds when \<open>raw_input[k] === true\<close>.
\<close>

record body =
  body_id :: nat
  position :: xy
  velocity :: xy
  body_size :: wh
  health :: real
  cls :: body_class
  speed :: real
  controller :: controller
  raw_input :: "nat \<Rightarrow> bool"
  timer :: real
  spawnRate :: real

record enemySpawner =
  spawn_timer :: real
  spawn_rate :: real

text \<open>
  The global variables. \<open>entities\<close> is the registry: the keys present with the address
  stored under each, in ascending key order (the order of \<open>Object.values\<close> on integer keys).
  \<open>collision_handler\<close> is \<open>True\<close> when the variable is not \<open>null\<close> (the object has no
  fields). \<open>player\<close> is the address of the active player.
\<close>

record world =
  heap :: "nat \<Rightarrow> body"
  next_addr :: nat
  entities :: "(nat \<times> nat) list"
  queued_entities_for_removal :: "nat list"
  running_id :: nat
  player :: nat
  enemy_spawner :: "enemySpawner option"
  collision_handler :: bool
  hitEnemies :: nat
  timeElasped :: real
  totEnemies :: nat
  score :: int
  last_time :: "real option"
  loop_count :: nat

datatype error = TypeError

definition canvas_width :: real where
  "canvas_width = 300"

definition canvas_height :: real where
  "canvas_height = 500"

subsection \<open>The registry and the store\<close>

fun reg_set :: "nat \<Rightarrow> nat \<Rightarrow> (nat \<times> nat) list \<Rightarrow> (nat \<times> nat) list" where
  "reg_set k a [] = [(k, a)]"
| "reg_set k a ((k', a') # es) =
     (if k = k' then (k, a) # es
      else if k < k' then (k, a) # (k', a') # es
      else (k', a') # reg_set k a es)"

definition reg_delete :: "nat \<Rightarrow> (nat \<times> nat) list \<Rightarrow> (nat \<times> nat) list" where
  "reg_delete k es = filter (\<lambda>e. fst e \<noteq> k) es"

definition Object_values :: "(nat \<times> nat) list \<Rightarrow> nat list" where
  "Object_values es = map snd es"

definition upd :: "nat \<Rightarrow> (body \<Rightarrow> body) \<Rightarrow> world \<Rightarrow> world" where
  "upd a f w = w\<lparr>heap := (heap w)(a := f (heap w a))\<rparr>"

subsection \<open>\<open>Body\<close>\<close>

definition default_body :: body where
  "default_body = \<lparr>body_id = 0, position = \<lparr>xc = 0, yc = 0\<rparr>, velocity = \<lparr>xc = 0, yc = 0\<rparr>,
     body_size = \<lparr>width = 10, height = 10\<rparr>, health = 100, cls = Enemy, speed = 0,
     controller = \<lparr>move_x = 0, move_y = 0, action_1 = False\<rparr>, raw_input = (\<lambda>k. False),
     timer = 0, spawnRate = 0\<rparr>"

text \<open>
  The constructor of \<open>Body\<close>: a fresh object at the next address, with the next id,
  stored in the registry under that id. It returns the address of the object.
\<close>

definition new_Body :: "world \<Rightarrow> nat \<times> world" where
  "new_Body w =
     (let a = next_addr w;
          b = default_body\<lparr>body_id := running_id w\<rparr>
      in (a, w\<lparr>heap := (heap w)(a := b), next_addr := Suc a,
                running_id := Suc (running_id w),
                entities := reg_set (running_id w) a (entities w)\<rparr>))"

definition isDead :: "body \<Rightarrow> bool" where
  "isDead b \<longleftrightarrow> health b \<le> 0"

definition Body_update :: "real \<Rightarrow> body \<Rightarrow> body" where
  "Body_update delta_time b =
     b\<lparr>position := \<lparr>xc = xc (position b) + delta_time * xc (velocity b),
                    yc = yc (position b) + delta_time * yc (velocity b)\<rparr>\<rparr>"

definition remove :: "nat \<Rightarrow> world \<Rightarrow> world" where
  "remove a w =
     w\<lparr>queued_entities_for_removal := queued_entities_for_removal w @ [body_id (heap w a)]\<rparr>"

subsection \<open>\<open>collisionHandler\<close>\<close>

definition checkCollision :: "body \<Rightarrow> body \<Rightarrow> bool" where
  "checkCollision entity1 entity2 \<longleftrightarrow>
     xc (position entity1) < xc (position entity2) + 12 \<and>
     xc (position entity1) + 12 > xc (position entity2) \<and>
     yc (position entity1) < yc (position entity2) + 12 \<and>
     yc (position entity1) + 12 > yc (position entity2)"

text \<open>The body of the inner callback of \<open>collisionHandler.update\<close>, for one ordered pair.\<close>

definition resolve :: "nat \<Rightarrow> nat \<Rightarrow> world \<Rightarrow> world" where
  "resolve a1 a2 w =
     (if checkCollision (heap w a1) (heap w a2) \<and> body_id (heap w a1) \<noteq> body_id (heap w a2)
      then
        if body_id (heap w a1) = 0
        then remove a2 (upd a1 (\<lambda>b. b\<lparr>health := health b - 50\<rparr>) w)
        else if body_id (heap w a2) = 0
        then remove a1 w
        else remove a2 (remove a1 (w\<lparr>hitEnemies := hitEnemies w + 1\<rparr>))
      else w)"

definition collision_update :: "world \<Rightarrow> world" where
  "collision_update w =
     fold (\<lambda>a1 w1. fold (\<lambda>a2 w2. resolve a1 a2 w2) (Object_values (entities w1)) w1)
       (Object_values (entities w)) w"

subsection \<open>\<open>InputHandler\<close>\<close>

text \<open>
  \<open>key_code_mappings\<close>: button 32 sets \<open>action_1\<close>; axis 65 adds -1 and 68 adds 1 to
  \<open>move_x\<close>; axis 83 adds 1 and 87 adds -1 to \<open>move_y\<close>. \<open>Object.entries\<close> visits the
  integer keys in ascending order. The handler of a player writes that player's fields;
  \<open>window_keydown\<close> and \<open>window_keyup\<close> are the events as the active player's handler
  sees them (the handlers of the players of earlier sessions write objects that nothing
  reads any more).
\<close>

definition keydown :: "nat \<Rightarrow> body \<Rightarrow> body" where
  "keydown keyCode b = b\<lparr>raw_input := (raw_input b)(keyCode := True)\<rparr>"

definition keyup :: "nat \<Rightarrow> body \<Rightarrow> body" where
  "keyup keyCode b = b\<lparr>raw_input := (raw_input b)(keyCode := False)\<rparr>"

definition window_keydown :: "nat \<Rightarrow> world \<Rightarrow> world" where
  "window_keydown keyCode w = upd (player w) (keydown keyCode) w"

definition window_keyup :: "nat \<Rightarrow> world \<Rightarrow> world" where
  "window_keyup keyCode w = upd (player w) (keyup keyCode) w"

definition resetController :: "body \<Rightarrow> body" where
  "resetController b = b\<lparr>controller := \<lparr>move_x = 0, move_y = 0, action_1 = False\<rparr>\<rparr>"

definition poll_button :: "nat \<Rightarrow> body \<Rightarrow> body" where
  "poll_button key_code b =
     (if raw_input b key_code then b\<lparr>controller := (controller b)\<lparr>action_1 := True\<rparr>\<rparr> else b)"

definition poll_axis_x :: "nat \<Rightarrow> int \<Rightarrow> body \<Rightarrow> body" where
  "poll_axis_x key_code m b =
     (if raw_input b key_code
      then b\<lparr>controller := (controller b)\<lparr>move_x := move_x (controller b) + m\<rparr>\<rparr> else b)"

definition poll_axis_y :: "nat \<Rightarrow> int \<Rightarrow> body \<Rightarrow> body" where
  "poll_axis_y key_code m b =
     (if raw_input b key_code
      then b\<lparr>controller := (controller b)\<lparr>move_y := move_y (controller b) + m\<rparr>\<rparr> else b)"

definition pollController :: "body \<Rightarrow> body" where
  "pollController b =
     poll_axis_y 87 (- 1) (poll_axis_y 83 1 (poll_axis_x 68 1 (poll_axis_x 65 (- 1)
       (poll_button 32 (resetController b)))))"

subsection \<open>\<open>Player\<close>\<close>

definition new_Player :: "world \<Rightarrow> nat \<times> world" where
  "new_Player w =
     (let (a, w1) = new_Body w
      in (a, upd a (\<lambda>b. b\<lparr>cls := Player,
                controller := \<lparr>move_x = 0, move_y = 0, action_1 = False\<rparr>,
                raw_input := (\<lambda>k. False), speed := 7, timer := 0, spawnRate := 3 / 10,
                position := \<lparr>xc = canvas_width / 2, yc = canvas_height - 100\<rparr>\<rparr>) w1))"

text \<open>The body shared, word for word, by the four diagonal branches of \<open>Player.update\<close>.\<close>

definition diagonal_move :: "body \<Rightarrow> body" where
  "diagonal_move b =
     (let b1 = b\<lparr>velocity := (velocity b)\<lparr>xc :=
                 sqrt ((speed b)\<^sup>2 + (speed b)\<^sup>2) * of_int (move_x (controller b))\<rparr>\<rparr>;
          b2 = b1\<lparr>velocity := (velocity b1)\<lparr>yc :=
                 sqrt ((speed b1)\<^sup>2 + (speed b1)\<^sup>2) * of_int (move_y (controller b1))\<rparr>\<rparr>;
          b3 = b2\<lparr>position := (position b2)\<lparr>xc := xc (position b2) + xc (velocity b2) / 2\<rparr>\<rparr>;
          b4 = b3\<lparr>position := (position b3)\<lparr>yc := yc (position b3) + yc (velocity b3) / 2\<rparr>\<rparr>;
          b5 = b4\<lparr>velocity := (velocity b4)\<lparr>xc := 0\<rparr>\<rparr>
      in b5\<lparr>velocity := (velocity b5)\<lparr>yc := 0\<rparr>\<rparr>)"

definition horizontal_move :: "body \<Rightarrow> body" where
  "horizontal_move b =
     (let b1 = b\<lparr>velocity := (velocity b)\<lparr>xc := speed b * of_int (move_x (controller b))\<rparr>\<rparr>;
          b2 = b1\<lparr>position := (position b1)\<lparr>xc := xc (position b1) + xc (velocity b1)\<rparr>\<rparr>
      in b2\<lparr>velocity := (velocity b2)\<lparr>xc := 0\<rparr>\<rparr>)"

definition vertical_move :: "body \<Rightarrow> body" where
  "vertical_move b =
     (let b1 = b\<lparr>velocity := (velocity b)\<lparr>yc := speed b * of_int (move_y (controller b))\<rparr>\<rparr>;
          b2 = b1\<lparr>position := (position b1)\<lparr>yc := yc (position b1) + yc (velocity b1)\<rparr>\<rparr>
      in b2\<lparr>velocity := (velocity b2)\<lparr>yc := 0\<rparr>\<rparr>)"

text \<open>The \<open>if\<close>/\<open>else if\<close> chain at the head of \<open>Player.update\<close>.\<close>

definition Player_move :: "body \<Rightarrow> body" where
  "Player_move b =
     (if move_y (controller b) = 0 then horizontal_move b
      else if move_x (controller b) = 0 then vertical_move b
      else if move_x (controller b) = 1 \<and> move_y (controller b) = 1 then diagonal_move b
      else if move_x (controller b) = 1 \<and> move_y (controller b) = - 1 then diagonal_move b
      else if move_x (controller b) = - 1 \<and> move_y (controller b) = 1 then diagonal_move b
      else if move_x (controller b) = - 1 \<and> move_y (controller b) = - 1 then diagonal_move b
      else b)"

text \<open>
  The number of the branch of that chain which runs (in source order, from 1), and 0 when
  none does.
\<close>

definition Player_branch :: "controller \<Rightarrow> nat" where
  "Player_branch c =
     (if move_y c = 0 then 1
      else if move_x c = 0 then 2
      else if move_x c = 1 \<and> move_y c = 1 then 3
      else if move_x c = 1 \<and> move_y c = - 1 then 4
      else if move_x c = - 1 \<and> move_y c = 1 then 5
      else if move_x c = - 1 \<and> move_y c = - 1 then 6
      else 0)"

definition clip :: "body \<Rightarrow> body" where
  "clip b =
     (let b1 = b\<lparr>position := (position b)\<lparr>xc := min (max 0 (xc (position b))) canvas_width\<rparr>\<rparr>
      in b1\<lparr>position := (position b1)\<lparr>yc := min (max 0 (yc (position b1))) canvas_height\<rparr>\<rparr>)"

text \<open>
  The constructor of \<open>projectile\<close>. \<open>entities[0]\<close> is read after \<open>super()\<close> has stored the
  new object; reading \<open>position\<close> of \<open>undefined\<close> throws.
\<close>

definition new_projectile :: "world \<Rightarrow> error + world" where
  "new_projectile w =
     (let (a, w1) = new_Body w;
          w2 = upd a (\<lambda>b. b\<lparr>cls := projectile, speed := 8\<rparr>) w1
      in case map_of (entities w2) 0 of
           None \<Rightarrow> Inl TypeError
         | Some p \<Rightarrow>
             Inr (upd a (\<lambda>b. b\<lparr>position := \<lparr>xc = xc (position (heap w2 p)),
                                             yc = yc (position (heap w2 p)) - 25\<rparr>\<rparr>) w2))"

definition fire :: "nat \<Rightarrow> world \<Rightarrow> error + world" where
  "fire a w =
     (if timer (heap w a) \<ge> spawnRate (heap w a)
      then (let w1 = upd a (\<lambda>b. b\<lparr>timer := 0\<rparr>) w
            in if action_1 (controller (heap w1 a)) then new_projectile w1 else Inr w1)
      else Inr w)"

definition Player_update :: "real \<Rightarrow> nat \<Rightarrow> world \<Rightarrow> error + world" where
  "Player_update delta_time a w =
     (let w1 = upd a Player_move w;
          w2 = upd a (\<lambda>b. b\<lparr>timer := timer b + delta_time\<rparr>) w1
      in case fire a w2 of
           Inl e \<Rightarrow> Inl e
         | Inr w3 \<Rightarrow> Inr (upd a clip (upd a (Body_update delta_time) w3)))"

subsection \<open>\<open>Enemy\<close>, \<open>enemySpawner\<close> and \<open>projectile\<close>\<close>

text \<open>\<open>r\<close> is the value that \<open>Math.random()\<close> returns.\<close>

definition new_Enemy :: "real \<Rightarrow> world \<Rightarrow> world" where
  "new_Enemy r w =
     (let (a, w1) = new_Body w
      in upd a (\<lambda>b. b\<lparr>cls := Enemy, speed := 2,
            position := \<lparr>xc = canvas_width * r, yc = canvas_height - 500\<rparr>\<rparr>) w1)"

definition Enemy_update :: "real \<Rightarrow> nat \<Rightarrow> world \<Rightarrow> world" where
  "Enemy_update delta_time a w =
     (let w1 = upd a (\<lambda>b. b\<lparr>velocity := (velocity b)\<lparr>yc := speed b * 1\<rparr>\<rparr>) w;
          w2 = upd a (\<lambda>b. b\<lparr>position := (position b)\<lparr>yc := yc (position b) + yc (velocity b)\<rparr>\<rparr>) w1;
          w3 = (if yc (position (heap w2 a)) >
                   min (max 0 (yc (position (heap w2 a)))) canvas_height
                then remove a w2 else w2)
      in upd a (Body_update delta_time) w3)"

definition projectile_update :: "real \<Rightarrow> nat \<Rightarrow> world \<Rightarrow> world" where
  "projectile_update delta_time a w =
     (let w1 = upd a (\<lambda>b. b\<lparr>velocity := (velocity b)\<lparr>yc := speed b * (- 1)\<rparr>\<rparr>) w;
          w2 = upd a (\<lambda>b. b\<lparr>position := (position b)\<lparr>yc := yc (position b) + yc (velocity b)\<rparr>\<rparr>) w1
      in if yc (position (heap w2 a)) < min (max 0 (yc (position (heap w2 a)))) canvas_height
         then remove a w2 else w2)"

definition enemySpawner_update :: "real \<Rightarrow> real \<Rightarrow> enemySpawner \<Rightarrow> world \<Rightarrow> world" where
  "enemySpawner_update delta_time r s w =
     (let s1 = s\<lparr>spawn_timer := spawn_timer s + delta_time\<rparr>
      in if spawn_timer s1 \<ge> spawn_rate s1
         then (let w1 = new_Enemy r (w\<lparr>enemy_spawner := Some (s1\<lparr>spawn_timer := 0\<rparr>)\<rparr>)
               in w1\<lparr>totEnemies := totEnemies w1 + 1\<rparr>)
         else w\<lparr>enemy_spawner := Some s1\<rparr>)"

subsection \<open>The main section: \<open>start\<close>, \<open>update\<close>, \<open>draw\<close>\<close>

definition start :: "world \<Rightarrow> world" where
  "start w =
     (let w1 = w\<lparr>entities := [], queued_entities_for_removal := [], running_id := 0,
                 hitEnemies := 0, timeElasped := 0, totEnemies := 0\<rparr>;
          (p, w2) = new_Player w1
      in w2\<lparr>player := p, enemy_spawner := Some \<lparr>spawn_timer = 0, spawn_rate = 7 / 10\<rparr>,
             collision_handler := True\<rparr>)"

definition entity_update :: "real \<Rightarrow> nat \<Rightarrow> world \<Rightarrow> error + world" where
  "entity_update delta_time a w =
     (case cls (heap w a) of
        Player \<Rightarrow> Player_update delta_time a w
      | Enemy \<Rightarrow> Inr (Enemy_update delta_time a w)
      | projectile \<Rightarrow> Inr (projectile_update delta_time a w))"

text \<open>\<open>forEach\<close> over the array that \<open>Object.values(entities)\<close> returned.\<close>

fun move_entities :: "real \<Rightarrow> nat list \<Rightarrow> world \<Rightarrow> error + world" where
  "move_entities delta_time [] w = Inr w"
| "move_entities delta_time (a # as) w =
     (case entity_update delta_time a w of
        Inl e \<Rightarrow> Inl e
      | Inr w1 \<Rightarrow> move_entities delta_time as w1)"

definition flush_removals :: "world \<Rightarrow> world" where
  "flush_removals w =
     w\<lparr>entities := fold reg_delete (queued_entities_for_removal w) (entities w),
       queued_entities_for_removal := []\<rparr>"

definition spawn_enemies :: "real \<Rightarrow> real \<Rightarrow> world \<Rightarrow> world" where
  "spawn_enemies delta_time r w =
     (case enemy_spawner w of
        None \<Rightarrow> w
      | Some s \<Rightarrow> enemySpawner_update delta_time r s w)"

definition restart_wanted :: "world \<Rightarrow> bool" where
  "restart_wanted w \<longleftrightarrow>
     isDead (heap w (player w)) \<and> action_1 (controller (heap w (player w)))"

text \<open>The last three statements of \<open>update\<close>: restart, time alive, score.\<close>

definition bookkeeping :: "real \<Rightarrow> world \<Rightarrow> world" where
  "bookkeeping delta_time w =
     (let w1 = (if restart_wanted w then start w else w);
          w2 = (if \<not> isDead (heap w1 (player w1))
                then w1\<lparr>timeElasped := timeElasped w1 + delta_time\<rparr> else w1)
      in w2\<lparr>score := \<lfloor>30 * (real (hitEnemies w2) / 2) + timeElasped w2\<rfloor>\<rparr>)"

definition update :: "real \<Rightarrow> real \<Rightarrow> world \<Rightarrow> error + world" where
  "update delta_time r w =
     (let w1 = upd (player w) pollController w
      in case move_entities delta_time (Object_values (entities w1)) w1 of
           Inl e \<Rightarrow> Inl e
         | Inr w2 \<Rightarrow>
             (let w3 = (if collision_handler w2 then collision_update w2 else w2);
                  w4 = flush_removals w3;
                  w5 = spawn_enemies delta_time r w4
              in Inr (bookkeeping delta_time w5)))"

text \<open>What \<open>draw\<close> does to the state: on the game-over screen it drops the spawner.\<close>

definition draw :: "world \<Rightarrow> world" where
  "draw w = (if isDead (heap w (player w)) then w\<lparr>enemy_spawner := None\<rparr> else w)"

subsection \<open>\<open>loop\<close> and its time arithmetic\<close>

text \<open>
  A finite binary64 number is the real number it denotes. \<open>round_double\<close> rounds a real to
  the nearest binary64 number, ties to even: \<open>exponent q\<close> is the \<open>e\<close> with
  \<open>2 ^ e \<le> q < 2 ^ (e + 1)\<close>, the spacing of the numbers around \<open>q\<close> is
  \<open>2 ^ (e - 52)\<close>, and \<open>2 ^ (- 1074)\<close> below the normal range. \<open>fdiv\<close> and \<open>fsub\<close> are
  the \<open>/\<close> and \<open>-\<close> of the language on such numbers. Overflow to \<open>Infinity\<close> is not
  modelled: the times handled here are far below \<open>2 ^ 1024\<close>.
\<close>

definition pow2 :: "int \<Rightarrow> real" where
  "pow2 e = (if 0 \<le> e then 2 ^ nat e else 1 / 2 ^ nat (- e))"

definition exponent :: "real \<Rightarrow> int" where
  "exponent q =
     (if 1 \<le> q then int (floorlog 2 (nat \<lfloor>q\<rfloor>)) - 1
      else - int (floorlog 2 (nat (\<lceil>1 / q\<rceil> - 1))))"

definition round_half_even :: "real \<Rightarrow> int" where
  "round_half_even q =
     (let f = \<lfloor>q\<rfloor>; r = q - of_int f
      in if r < 1 / 2 then f else if 1 / 2 < r then f + 1 else if even f then f else f + 1)"

definition round_double :: "real \<Rightarrow> real" where
  "round_double q =
     (if q = 0 then 0
      else (let ulp = pow2 (max (exponent \<bar>q\<bar>) (- 1022) - 52)
            in of_int (round_half_even (q / ulp)) * ulp))"

definition fdiv :: "real \<Rightarrow> real \<Rightarrow> real" where
  "fdiv a b = round_double (a / b)"

definition fsub :: "real \<Rightarrow> real \<Rightarrow> real" where
  "fsub a b = round_double (a - b)"

text \<open>\<open>config.update_rate.seconds = 1 / config.update_rate.fps\<close>, with \<open>fps: 60\<close>.\<close>

definition update_rate_seconds :: real where
  "update_rate_seconds = fdiv 1 60"

text \<open>The statements of the \<open>while\<close> body that follow \<open>update\<close>.\<close>

definition end_of_step :: "real \<Rightarrow> world \<Rightarrow> world" where
  "end_of_step curr_time w =
     (let w1 = draw w
      in w1\<lparr>last_time := Some curr_time, loop_count := loop_count w1 + 1\<rparr>)"

text \<open>
  The \<open>while\<close> loop of \<open>loop\<close>. \<open>rs i\<close> is what the \<open>i\<close>-th call of \<open>update\<close> from
  now gets from \<open>Math.random()\<close>. The result is \<open>None\<close> when the loop does not end,
  the error when an \<open>update\<close> throws, and otherwise the final \<open>delta_time\<close> with the state.
\<close>

partial_function (option) loop_while ::
    "real \<Rightarrow> real \<Rightarrow> (nat \<Rightarrow> real) \<Rightarrow> world \<Rightarrow> (error + real \<times> world) option" where
  "loop_while delta_time curr_time rs w =
     (if delta_time > update_rate_seconds
      then (case update update_rate_seconds (rs 0) w of
              Inl e \<Rightarrow> Some (Inl e)
            | Inr w1 \<Rightarrow>
                loop_while (fsub delta_time update_rate_seconds) curr_time (\<lambda>i. rs (Suc i))
                  (end_of_step curr_time w1))
      else Some (Inr (delta_time, w)))"

definition loop :: "real \<Rightarrow> (nat \<Rightarrow> real) \<Rightarrow> world \<Rightarrow> (error + real \<times> world) option" where
  "loop curr_time_ms rs w =
     (let curr_time = fdiv curr_time_ms 1000;
          (t, w1) = (case last_time w of
                       None \<Rightarrow> (curr_time, w\<lparr>last_time := Some curr_time\<rparr>)
                     | Some t \<Rightarrow> (t, w));
          delta_time = fsub curr_time t
      in loop_while delta_time curr_time rs w1)"

section \<open>Definitions used to state the properties\<close>

subsection \<open>Collisions\<close>

text \<open>
  The test of the inner callback of \<open>collisionHandler.update\<close> for the ordered pair of
  addresses \<open>(a1, a2)\<close>, the three outcomes it selects, and the state the whole run leaves
  when it visits the ordered pairs \<open>ps\<close>.
\<close>

definition collides :: "world \<Rightarrow> nat \<Rightarrow> nat \<Rightarrow> bool" where
  "collides w a1 a2 \<longleftrightarrow>
     checkCollision (heap w a1) (heap w a2) \<and> body_id (heap w a1) \<noteq> body_id (heap w a2)"

definition player_hit :: "world \<Rightarrow> nat \<times> nat \<Rightarrow> bool" where
  "player_hit w p \<longleftrightarrow> collides w (fst p) (snd p) \<and> body_id (heap w (fst p)) = 0"

definition enemy_hit :: "world \<Rightarrow> nat \<times> nat \<Rightarrow> bool" where
  "enemy_hit w p \<longleftrightarrow> collides w (fst p) (snd p) \<and> body_id (heap w (fst p)) \<noteq> 0
     \<and> body_id (heap w (snd p)) \<noteq> 0"

definition pushes :: "world \<Rightarrow> nat \<times> nat \<Rightarrow> nat list" where
  "pushes w p =
     (if collides w (fst p) (snd p) then
        if body_id (heap w (fst p)) = 0 then [body_id (heap w (snd p))]
        else if body_id (heap w (snd p)) = 0 then [body_id (heap w (fst p))]
        else [body_id (heap w (fst p)), body_id (heap w (snd p))]
      else [])"

definition damage :: "world \<Rightarrow> (nat \<times> nat) list \<Rightarrow> nat \<Rightarrow> real" where
  "damage w ps a = 50 * real (length (filter (\<lambda>p. fst p = a \<and> player_hit w p) ps))"

definition collision_result :: "world \<Rightarrow> (nat \<times> nat) list \<Rightarrow> world" where
  "collision_result w ps =
     w\<lparr>heap := (\<lambda>a. (heap w a)\<lparr>health := health (heap w a) - damage w ps a\<rparr>),
       queued_entities_for_removal := queued_entities_for_removal w @ concat (map (pushes w) ps),
       hitEnemies := hitEnemies w + length (filter (enemy_hit w) ps)\<rparr>"

definition resolve_pairs :: "(nat \<times> nat) list \<Rightarrow> world \<Rightarrow> world" where
  "resolve_pairs ps w = fold (\<lambda>p. resolve (fst p) (snd p)) ps w"

definition pairs :: "world \<Rightarrow> (nat \<times> nat) list" where
  "pairs w = List.product (Object_values (entities w)) (Object_values (entities w))"

text \<open>
  Two open axis-aligned boxes of half-extent \<open>h\<close> centred on \<open>c1\<close> and \<open>c2\<close> overlap:
  on each axis the lower edge of either box lies below the upper edge of the other.
\<close>

definition aabb_overlap :: "real \<Rightarrow> xy \<Rightarrow> xy \<Rightarrow> bool" where
  "aabb_overlap h c1 c2 \<longleftrightarrow>
     xc c1 - h < xc c2 + h \<and> xc c2 - h < xc c1 + h \<and>
     yc c1 - h < yc c2 + h \<and> yc c2 - h < yc c1 + h"

definition inside_box :: "real \<Rightarrow> xy \<Rightarrow> real \<times> real \<Rightarrow> bool" where
  "inside_box h c p \<longleftrightarrow>
     xc c - h < fst p \<and> fst p < xc c + h \<and> yc c - h < snd p \<and> snd p < yc c + h"

subsection \<open>Player movement\<close>


subsection \<open>What the parts of a step preserve\<close>

text \<open>
  \<open>keeps f\<close>: the field update \<open>f\<close> leaves health, class, id, keys and controller alone.
  \<open>ages w w'\<close>: no object of \<open>w\<close> has gained health, or changed class, id or keys.
  \<open>evolves w w'\<close>: moreover the active player, the spawner and its counter are the
  same, no controller of \<open>w\<close> has changed, and every new registry entry is a projectile
  allocated since \<open>w\<close>.
\<close>

definition keeps :: "(body \<Rightarrow> body) \<Rightarrow> bool" where
  "keeps f \<longleftrightarrow> (\<forall>b. health (f b) = health b \<and> cls (f b) = cls b \<and> body_id (f b) = body_id b
      \<and> raw_input (f b) = raw_input b \<and> controller (f b) = controller b)"

definition ages :: "world \<Rightarrow> world \<Rightarrow> bool" where
  "ages w w' \<longleftrightarrow> next_addr w \<le> next_addr w' \<and>
     (\<forall>a < next_addr w. health (heap w' a) \<le> health (heap w a) \<and> cls (heap w' a) = cls (heap w a)
        \<and> body_id (heap w' a) = body_id (heap w a) \<and> raw_input (heap w' a) = raw_input (heap w a))"

definition evolves :: "world \<Rightarrow> world \<Rightarrow> bool" where
  "evolves w w' \<longleftrightarrow> ages w w' \<and> player w' = player w \<and> enemy_spawner w' = enemy_spawner w
     \<and> totEnemies w' = totEnemies w
     \<and> (\<forall>a < next_addr w. controller (heap w' a) = controller (heap w a))
     \<and> (\<forall>e \<in> set (entities w'). e \<in> set (entities w) \<or>
           (next_addr w \<le> snd e \<and> snd e < next_addr w' \<and> cls (heap w' (snd e)) = projectile))"

subsection \<open>The course of a step, and of a session\<close>

text \<open>
  \<open>player_dead\<close> is \<open>player.isDead()\<close>. \<open>polled\<close> and \<open>settled\<close> name two stages of \<open>update\<close>: after the input poll, and
  after the collisions and the flush of the removal queue. \<open>reachable\<close> are the states at
  the end of a loop iteration (\<open>update\<close> then \<open>draw\<close>, for any step duration and any
  random value), between key events, from any call of \<open>start\<close>. \<open>allocated\<close>: the
  references held by the globals are addresses in use. \<open>tidy\<close>: the registry holds
  each object once.
\<close>

definition player_dead :: "world \<Rightarrow> bool" where
  "player_dead w \<longleftrightarrow> isDead (heap w (player w))"

definition polled :: "world \<Rightarrow> world" where
  "polled w = upd (player w) pollController w"

definition settled :: "world \<Rightarrow> world" where
  "settled w = flush_removals (if collision_handler w then collision_update w else w)"

inductive reachable :: "world \<Rightarrow> bool" where
  reachable_start: "reachable (start w)"
| reachable_keydown: "reachable w \<Longrightarrow> reachable (window_keydown k w)"
| reachable_keyup: "reachable w \<Longrightarrow> reachable (window_keyup k w)"
| reachable_frame: "reachable w \<Longrightarrow> update d r w = Inr w' \<Longrightarrow> reachable (draw w')"

definition allocated :: "world \<Rightarrow> bool" where
  "allocated w \<longleftrightarrow> player w < next_addr w \<and> (\<forall>e \<in> set (entities w). snd e < next_addr w)"

definition tidy :: "world \<Rightarrow> bool" where
  "tidy w \<longleftrightarrow> distinct (map snd (entities w)) \<and> (\<forall>e \<in> set (entities w). snd e < next_addr w)"

subsection \<open>A concrete state\<close>

text \<open>
  A session in progress, used to run the definitions: the player (id 0) at \<open>(150, 400)\<close>
  with 50 health left and no key down, an enemy (id 1) at \<open>(155, 395)\<close> and a
  projectile (id 2) at \<open>(150, 390)\<close>. Each pair of the three is closer than 12 on both
  axes, and the spawner is one step short of its period.
\<close>

definition demo_player :: body where
  "demo_player = default_body\<lparr>body_id := 0, position := \<lparr>xc = 150, yc = 400\<rparr>, health := 50,
     cls := Player, speed := 7, spawnRate := 3 / 10\<rparr>"

definition demo_enemy :: body where
  "demo_enemy = default_body\<lparr>body_id := 1, position := \<lparr>xc = 155, yc = 395\<rparr>,
     cls := Enemy, speed := 2\<rparr>"

definition demo_shot :: body where
  "demo_shot = default_body\<lparr>body_id := 2, position := \<lparr>xc = 150, yc = 390\<rparr>,
     cls := projectile, speed := 8\<rparr>"

definition demo_world :: world where
  "demo_world = \<lparr>heap = (\<lambda>a. default_body)(0 := demo_player, 1 := demo_enemy, 2 := demo_shot),
     next_addr = 3, entities = [(0, 0), (1, 1), (2, 2)], queued_entities_for_removal = [],
     running_id = 3, player = 0,
     enemy_spawner = Some \<lparr>spawn_timer = 69 / 100, spawn_rate = 7 / 10\<rparr>,
     collision_handler = True, hitEnemies = 4, timeElasped = 10, totEnemies = 5, score = 70,
     last_time = Some 0, loop_count = 0\<rparr>"

text \<open>
  The game-over screen: the player of \<open>demo_world\<close> alone and dead, the fire key held and
  already polled, the spawner dropped.
\<close>

definition demo_over :: world where
  "demo_over = demo_world\<lparr>heap := (\<lambda>a. default_body)(0 := demo_player\<lparr>health := 0,
        controller := \<lparr>move_x = 0, move_y = 0, action_1 = True\<rparr>, raw_input := (\<lambda>k. k = 32)\<rparr>),
     next_addr := 1, entities := [(0, 0)], running_id := 1, enemy_spawner := None\<rparr>"

definition demo_random :: "nat \<Rightarrow> real" where
  "demo_random i = 1 / 2"


text \<open>
  One loop iteration, \<open>update\<close> then \<open>draw\<close> (the state stays as it is when \<open>update\<close>
  throws), and a session played to its end: a new session, then three iterations, with steps
  long enough for the spawner to fire in each and for an enemy to come down on the player in
  one, so that two enemies, spawned halfway along the top, hit the player.
\<close>

definition play :: "real \<Rightarrow> real \<Rightarrow> world \<Rightarrow> world" where
  "play d r w = (case update d r w of Inl e \<Rightarrow> w | Inr w' \<Rightarrow> draw w')"

definition demo_dead :: world where
  "demo_dead = play 194 (1 / 2) (play 194 (1 / 2) (play 1 (1 / 2) (start demo_world)))"

section \<open>The collision run in closed form\<close>

lemma collision_result_Nil: "collision_result w [] = w"
  by (simp add: collision_result_def damage_def)

lemma resolve_single: "resolve a1 a2 w = collision_result w [(a1, a2)]"
  unfolding resolve_def collision_result_def damage_def pushes_def player_hit_def enemy_hit_def
    collides_def remove_def upd_def
  by (auto simp: fun_eq_iff intro!: world.equality body.equality)

lemma collides_result: "collides (collision_result w ps) a b = collides w a b"
  by (simp add: collides_def collision_result_def checkCollision_def)

lemma id_result: "body_id (heap (collision_result w ps) a) = body_id (heap w a)"
  by (simp add: collision_result_def)

lemma pushes_result: "pushes (collision_result w ps) = pushes w"
  by (simp add: fun_eq_iff pushes_def collides_result id_result)

lemma player_hit_result: "player_hit (collision_result w ps) = player_hit w"
  by (simp add: fun_eq_iff player_hit_def collides_result id_result)

lemma enemy_hit_result: "enemy_hit (collision_result w ps) = enemy_hit w"
  by (simp add: fun_eq_iff enemy_hit_def collides_result id_result)

lemma damage_append: "damage w (ps @ qs) a = damage w ps a + damage w qs a"
  by (simp add: damage_def algebra_simps)

lemma damage_result: "damage (collision_result w ps) qs a = damage w qs a"
  by (simp add: damage_def player_hit_result)

lemma collision_result_compose:
  "collision_result (collision_result w ps) qs = collision_result w (ps @ qs)"
proof -
  let ?v = "collision_result w ps"
  have "collision_result ?v qs =
     ?v\<lparr>heap := (\<lambda>a. (heap ?v a)\<lparr>health := health (heap ?v a) - damage w qs a\<rparr>),
       queued_entities_for_removal := queued_entities_for_removal ?v @ concat (map (pushes w) qs),
       hitEnemies := hitEnemies ?v + length (filter (enemy_hit w) qs)\<rparr>"
    by (simp only: collision_result_def [of ?v qs] pushes_result enemy_hit_result damage_result)
  also have "\<dots> = collision_result w (ps @ qs)"
    by (simp add: collision_result_def damage_append fun_eq_iff algebra_simps)
  finally show ?thesis .
qed

lemma resolve_pairs_closed: "resolve_pairs ps w = collision_result w ps"
proof (induction ps arbitrary: w)
  case Nil
  show ?case by (simp add: resolve_pairs_def collision_result_Nil)
next
  case (Cons p ps)
  have "resolve_pairs (p # ps) w = resolve_pairs ps (resolve (fst p) (snd p) w)"
    by (simp add: resolve_pairs_def)
  also have "\<dots> = collision_result (collision_result w [(fst p, snd p)]) ps"
    by (simp add: Cons.IH resolve_single)
  also have "\<dots> = collision_result w (p # ps)"
    by (simp add: collision_result_compose)
  finally show ?case .
qed

lemma entities_result: "entities (collision_result w ps) = entities w"
  by (simp add: collision_result_def)

lemma inner_fold: "fold (\<lambda>a2 w2. resolve a1 a2 w2) ys w = resolve_pairs (map (Pair a1) ys) w"
  by (simp add: resolve_pairs_def fold_map comp_def)

lemma outer_fold:
  "entities w = es \<Longrightarrow>
   fold (\<lambda>a1 w1. fold (\<lambda>a2 w2. resolve a1 a2 w2) (Object_values (entities w1)) w1) xs w
     = resolve_pairs (List.product xs (Object_values es)) w"
proof (induction xs arbitrary: w)
  case Nil
  show ?case by (simp add: resolve_pairs_def)
next
  case (Cons a xs)
  let ?w1 = "resolve_pairs (map (Pair a) (Object_values es)) w"
  have e: "entities ?w1 = es"
    using Cons.prems by (simp add: resolve_pairs_closed entities_result)
  show ?case
    using Cons.IH [OF e] Cons.prems by (simp add: inner_fold resolve_pairs_def)
qed

lemma collision_update_closed: "collision_update w = collision_result w (pairs w)"
  unfolding collision_update_def pairs_def
  by (simp add: outer_fold resolve_pairs_closed)

lemma aabb_overlap_common_point:
  "aabb_overlap h c1 c2 \<longleftrightarrow> (\<exists>p. inside_box h c1 p \<and> inside_box h c2 p)"
proof
  assume ov: "aabb_overlap h c1 c2"
  let ?px = "(max (xc c1) (xc c2) - h + (min (xc c1) (xc c2) + h)) / 2"
  let ?py = "(max (yc c1) (yc c2) - h + (min (yc c1) (yc c2) + h)) / 2"
  have "inside_box h c1 (?px, ?py) \<and> inside_box h c2 (?px, ?py)"
    using ov unfolding aabb_overlap_def inside_box_def by (auto simp: max_def min_def)
  then show "\<exists>p. inside_box h c1 p \<and> inside_box h c2 p" by blast
next
  assume "\<exists>p. inside_box h c1 p \<and> inside_box h c2 p"
  then show "aabb_overlap h c1 c2"
    unfolding aabb_overlap_def inside_box_def by auto
qed

lemma zero_not_pushed: "0 \<notin> set (pushes w p)"
  by (auto simp: pushes_def collides_def)

lemma enemy_hit_swap: "enemy_hit w (a2, a1) = enemy_hit w (a1, a2)"
  by (auto simp: enemy_hit_def collides_def checkCollision_def)

lemma enemy_hit_irrefl: "enemy_hit w (a1, a2) \<Longrightarrow> a1 \<noteq> a2"
  by (auto simp: enemy_hit_def collides_def)

lemma enemy_hit_pushes:
  "enemy_hit w p \<Longrightarrow> pushes w p = [body_id (heap w (fst p)), body_id (heap w (snd p))]"
  by (auto simp: enemy_hit_def pushes_def)

lemma count_both_orders:
  assumes d: "distinct vs"
  shows "length (filter (enemy_hit w) (List.product vs vs))
       = 2 * length (filter (\<lambda>p. fst p < snd p \<and> enemy_hit w p) (List.product vs vs))"
proof -
  let ?ps = "List.product vs vs"
  let ?S = "{p. enemy_hit w p} \<inter> set ?ps"
  let ?L = "{p. fst p < snd p \<and> enemy_hit w p} \<inter> set ?ps"
  let ?G = "{p. snd p < fst p \<and> enemy_hit w p} \<inter> set ?ps"
  have dp: "distinct ?ps" using d by (simp add: distinct_product)
  have fin: "finite ?L" "finite ?G" by simp_all
  have split: "?S = ?L \<union> ?G"
    using enemy_hit_irrefl [of w] by (fastforce simp: neq_iff)
  have disj: "?L \<inter> ?G = {}" by auto
  have img: "?G = prod.swap ` ?L"
  proof (rule set_eqI)
    fix p :: "nat \<times> nat"
    obtain a b where p: "p = (a, b)" by (cases p)
    show "p \<in> ?G \<longleftrightarrow> p \<in> prod.swap ` ?L"
    proof
      assume "p \<in> ?G"
      then have "(b, a) \<in> ?L" using p enemy_hit_swap [of w a b] by auto
      then have "prod.swap (b, a) \<in> prod.swap ` ?L" by (rule imageI)
      then show "p \<in> prod.swap ` ?L" using p by simp
    next
      assume "p \<in> prod.swap ` ?L"
      then obtain q where q: "q \<in> ?L" "p = prod.swap q" by blast
      then have "q = (b, a)" using p by (cases q) simp
      then show "p \<in> ?G" using q p enemy_hit_swap [of w a b] by auto
    qed
  qed
  have "card ?G = card ?L"
    unfolding img by (rule card_image) (auto simp: inj_on_def)
  then have "card ?S = 2 * card ?L"
    using split disj fin by (simp add: card_Un_disjoint)
  then show ?thesis
    using dp by (simp add: distinct_length_filter)
qed

section \<open>Stores, registries and single objects\<close>


lemma heap_upd_other: "a' \<noteq> a \<Longrightarrow> heap (upd a f w) a' = heap w a'"
  by (simp add: upd_def)


lemma queue_upd: "queued_entities_for_removal (upd a f w) = queued_entities_for_removal w"
  by (simp add: upd_def)



lemma map_of_reg_set: "map_of (reg_set k a es) = (map_of es)(k \<mapsto> a)"
  by (induction es) (auto simp: fun_eq_iff)

lemma new_projectile_returns:
  "map_of (entities w) 0 \<noteq> None \<Longrightarrow> \<exists>w'. new_projectile w = Inr w'"
  by (auto simp: new_projectile_def new_Body_def Let_def upd_def map_of_reg_set split: option.splits)

lemma entities_upd: "entities (upd a f w) = entities w"
  by (simp add: upd_def)

lemma Player_update_returns:
  assumes "map_of (entities w) 0 \<noteq> None"
  shows "\<exists>w'. Player_update delta_time a w = Inr w'"
proof -
  let ?w2 = "upd a (\<lambda>b. b\<lparr>timer := timer b + delta_time\<rparr>) (upd a Player_move w)"
  have "\<exists>w3. fire a ?w2 = Inr w3"
    using assms new_projectile_returns [of "upd a (\<lambda>b. b\<lparr>timer := 0\<rparr>) ?w2"]
    by (auto simp: fire_def Let_def entities_upd)
  then show ?thesis
    by (auto simp: Player_update_def Let_def)
qed

(* C5 *)



lemma Player_move_by_branch:
  "Player_move b =
     (if Player_branch (controller b) = 1 then horizontal_move b
      else if Player_branch (controller b) = 2 then vertical_move b
      else if Player_branch (controller b) \<in> {3, 4, 5, 6} then diagonal_move b
      else b)"
  by (simp add: Player_move_def Player_branch_def)

section \<open>Preservation along a step\<close>

lemma ages_refl: "ages w w"
  by (simp add: ages_def)

lemma ages_trans [trans]: "ages w w1 \<Longrightarrow> ages w1 w2 \<Longrightarrow> ages w w2"
  unfolding ages_def by (metis (no_types, lifting) order_trans less_le_trans)

lemma evolves_ages: "evolves w w' \<Longrightarrow> ages w w'"
  by (simp add: evolves_def)

lemma evolves_refl: "evolves w w"
  by (simp add: evolves_def ages_refl)

lemma evolves_trans [trans]:
  assumes 1: "evolves w w1" and 2: "evolves w1 w2"
  shows "evolves w w2"
proof -
  have a1: "ages w w1" and a2: "ages w1 w2" using 1 2 by (simp_all add: evolves_def)
  have n: "next_addr w \<le> next_addr w1" "next_addr w1 \<le> next_addr w2"
    using a1 a2 by (simp_all add: ages_def)
  have c: "\<forall>a < next_addr w. controller (heap w2 a) = controller (heap w a)"
    using 1 2 n by (simp add: evolves_def)
  have r: "\<forall>e \<in> set (entities w2). e \<in> set (entities w) \<or>
           (next_addr w \<le> snd e \<and> snd e < next_addr w2 \<and> cls (heap w2 (snd e)) = projectile)"
  proof
    fix e assume e: "e \<in> set (entities w2)"
    from 2 e consider "e \<in> set (entities w1)"
      | "next_addr w1 \<le> snd e \<and> snd e < next_addr w2 \<and> cls (heap w2 (snd e)) = projectile"
      unfolding evolves_def by blast
    then show "e \<in> set (entities w) \<or>
           (next_addr w \<le> snd e \<and> snd e < next_addr w2 \<and> cls (heap w2 (snd e)) = projectile)"
    proof cases
      case a: 1
      from 1 a consider "e \<in> set (entities w)"
        | "next_addr w \<le> snd e \<and> snd e < next_addr w1 \<and> cls (heap w1 (snd e)) = projectile"
        unfolding evolves_def by blast
      then show ?thesis
      proof cases
        case 1 then show ?thesis by simp
      next
        case b: 2
        then have "cls (heap w2 (snd e)) = projectile" using a2 by (simp add: ages_def)
        then show ?thesis using b n by simp
      qed
    next
      case 2 then show ?thesis using n by simp
    qed
  qed
  show ?thesis
    using 1 2 ages_trans [OF a1 a2] c r by (simp add: evolves_def)
qed

lemma evolves_upd: "keeps f \<Longrightarrow> evolves w (upd a f w)"
  by (simp add: evolves_def ages_def keeps_def upd_def)

lemma set_reg_set: "set (reg_set k a es) \<subseteq> insert (k, a) (set es)"
  by (induction es) (auto split: if_splits)

lemma set_fold_reg_delete: "set (fold reg_delete ks es) \<subseteq> set es"
proof (induction ks arbitrary: es)
  case Nil
  show ?case by simp
next
  case (Cons k ks)
  have "set (fold reg_delete ks (reg_delete k es)) \<subseteq> set (reg_delete k es)"
    by (rule Cons.IH)
  also have "\<dots> \<subseteq> set es" by (auto simp: reg_delete_def)
  finally show ?case by simp
qed

lemma keeps_Player_move: "keeps Player_move"
  by (simp add: keeps_def Player_move_def horizontal_move_def vertical_move_def
      diagonal_move_def Let_def)

lemma keeps_clip: "keeps clip"
  by (simp add: keeps_def clip_def Let_def)

lemma keeps_Body_update: "keeps (Body_update d)"
  by (simp add: keeps_def Body_update_def)

lemma keeps_timer: "keeps (\<lambda>b. b\<lparr>timer := t b\<rparr>)"
  by (simp add: keeps_def)

lemma keeps_velocity: "keeps (\<lambda>b. b\<lparr>velocity := v b\<rparr>)"
  by (simp add: keeps_def)

lemma keeps_position: "keeps (\<lambda>b. b\<lparr>position := p b\<rparr>)"
  by (simp add: keeps_def)

lemmas keeps_all = keeps_Player_move keeps_clip keeps_Body_update
  keeps_timer keeps_velocity keeps_position

lemma evolves_remove: "evolves w (remove a w)"
  by (simp add: evolves_def ages_def remove_def)

lemma evolves_new_projectile:
  assumes "new_projectile w = Inr w'"
  shows "evolves w w'"
proof -
  let ?a = "next_addr w"
  from assms obtain f where w': "w' = upd ?a f (upd ?a (\<lambda>b. b\<lparr>cls := projectile, speed := 8\<rparr>)
       (snd (new_Body w)))" and f: "\<forall>b. cls (f b) = cls b"
    by (auto simp: new_projectile_def new_Body_def Let_def split: option.splits)
  have h: "\<forall>a. a \<noteq> ?a \<longrightarrow> heap w' a = heap w a"
    by (simp add: w' upd_def new_Body_def Let_def)
  have c: "cls (heap w' ?a) = projectile"
    using f by (simp add: w' upd_def new_Body_def Let_def)
  have g: "next_addr w' = Suc ?a" "player w' = player w" "enemy_spawner w' = enemy_spawner w"
    "totEnemies w' = totEnemies w" "entities w' = reg_set (running_id w) ?a (entities w)"
    by (simp_all add: w' upd_def new_Body_def Let_def)
  have r: "\<forall>e \<in> set (entities w'). e \<in> set (entities w) \<or> e = (running_id w, ?a)"
    using set_reg_set [of "running_id w" ?a "entities w"] g by auto
  show ?thesis
    unfolding evolves_def ages_def using h c g(1-4) r by auto
qed

lemma evolves_fire: "fire a w = Inr w' \<Longrightarrow> evolves w w'"
proof -
  assume f: "fire a w = Inr w'"
  let ?w1 = "upd a (\<lambda>b. b\<lparr>timer := 0\<rparr>) w"
  have e1: "evolves w ?w1" by (rule evolves_upd) (simp add: keeps_def)
  show ?thesis
  proof (cases "timer (heap w a) \<ge> spawnRate (heap w a)")
    case False
    then have "w' = w" using f by (simp add: fire_def)
    then show ?thesis by (simp add: evolves_refl)
  next
    case True
    show ?thesis
    proof (cases "action_1 (controller (heap ?w1 a))")
      case False
      then have "w' = ?w1" using f True by (simp add: fire_def Let_def)
      then show ?thesis using e1 by simp
    next
      case a: True
      then have "new_projectile ?w1 = Inr w'" using f True by (simp add: fire_def Let_def)
      then show ?thesis using evolves_trans [OF e1 evolves_new_projectile] by simp
    qed
  qed
qed

lemma evolves_Player_update: "Player_update d a w = Inr w' \<Longrightarrow> evolves w w'"
proof -
  assume p: "Player_update d a w = Inr w'"
  let ?w2 = "upd a (\<lambda>b. b\<lparr>timer := timer b + d\<rparr>) (upd a Player_move w)"
  from p obtain w3 where f: "fire a ?w2 = Inr w3"
    and w': "w' = upd a clip (upd a (Body_update d) w3)"
    by (auto simp: Player_update_def Let_def split: sum.splits)
  have "evolves w ?w2"
    by (rule evolves_trans [OF evolves_upd evolves_upd]) (simp_all add: keeps_all)
  also have "evolves ?w2 w3" using f by (rule evolves_fire)
  also have "evolves w3 w'" unfolding w'
    by (rule evolves_trans [OF evolves_upd evolves_upd]) (simp_all add: keeps_all)
  finally show ?thesis .
qed

lemma evolves_Enemy_update: "evolves w (Enemy_update d a w)"
proof -
  let ?w1 = "upd a (\<lambda>b. b\<lparr>velocity := (velocity b)\<lparr>yc := speed b * 1\<rparr>\<rparr>) w"
  let ?w2 = "upd a (\<lambda>b. b\<lparr>position := (position b)\<lparr>yc := yc (position b) + yc (velocity b)\<rparr>\<rparr>) ?w1"
  let ?w3 = "if yc (position (heap ?w2 a)) > min (max 0 (yc (position (heap ?w2 a)))) canvas_height
             then remove a ?w2 else ?w2"
  have "evolves w ?w1" by (rule evolves_upd) (rule keeps_velocity)
  also have "evolves ?w1 ?w2" by (rule evolves_upd) (rule keeps_position)
  also have "evolves ?w2 ?w3" by (simp add: evolves_remove evolves_refl)
  also have "evolves ?w3 (upd a (Body_update d) ?w3)" by (rule evolves_upd) (rule keeps_Body_update)
  finally show ?thesis unfolding Enemy_update_def Let_def .
qed

lemma evolves_projectile_update: "evolves w (projectile_update d a w)"
proof -
  let ?w1 = "upd a (\<lambda>b. b\<lparr>velocity := (velocity b)\<lparr>yc := speed b * (- 1)\<rparr>\<rparr>) w"
  let ?w2 = "upd a (\<lambda>b. b\<lparr>position := (position b)\<lparr>yc := yc (position b) + yc (velocity b)\<rparr>\<rparr>) ?w1"
  let ?w3 = "if yc (position (heap ?w2 a)) < min (max 0 (yc (position (heap ?w2 a)))) canvas_height
             then remove a ?w2 else ?w2"
  have "evolves w ?w1" by (rule evolves_upd) (rule keeps_velocity)
  also have "evolves ?w1 ?w2" by (rule evolves_upd) (rule keeps_position)
  also have "evolves ?w2 ?w3" by (simp add: evolves_remove evolves_refl)
  finally show ?thesis unfolding projectile_update_def Let_def .
qed

lemma evolves_entity_update: "entity_update d a w = Inr w' \<Longrightarrow> evolves w w'"
  by (auto simp: entity_update_def evolves_Player_update evolves_Enemy_update
      evolves_projectile_update split: body_class.splits)

lemma evolves_move_entities: "move_entities d as w = Inr w' \<Longrightarrow> evolves w w'"
proof (induction as arbitrary: w)
  case Nil
  then show ?case by (simp add: evolves_refl)
next
  case (Cons a as)
  then obtain w1 where 1: "entity_update d a w = Inr w1" and 2: "move_entities d as w1 = Inr w'"
    by (auto split: sum.splits)
  show ?case using evolves_entity_update [OF 1] Cons.IH [OF 2] by (rule evolves_trans)
qed

lemma damage_nonneg: "0 \<le> damage w ps a"
  by (simp add: damage_def)

lemma evolves_collision_update: "evolves w (collision_update w)"
  by (simp add: evolves_def ages_def collision_update_closed collision_result_def damage_nonneg)

lemma evolves_flush_removals: "evolves w (flush_removals w)"
  using set_fold_reg_delete [of "queued_entities_for_removal w" "entities w"]
  by (auto simp: evolves_def ages_def flush_removals_def)

lemma update_phases:
  assumes "update d r w = Inr w'"
  obtains w2 where "move_entities d (Object_values (entities w)) (polled w) = Inr w2"
    and "w' = bookkeeping d (spawn_enemies d r (settled w2))"
  using assms
  by (auto simp: update_def polled_def settled_def Let_def entities_upd split: sum.splits)

lemma pollController_fields:
  "health (pollController b) = health b" "cls (pollController b) = cls b"
  "body_id (pollController b) = body_id b" "raw_input (pollController b) = raw_input b"
  "action_1 (controller (pollController b)) = raw_input b 32"
  by (simp_all add: pollController_def poll_axis_x_def poll_axis_y_def poll_button_def
      resetController_def)

lemma polled_fields:
  "next_addr (polled w) = next_addr w" "player (polled w) = player w"
  "entities (polled w) = entities w" "enemy_spawner (polled w) = enemy_spawner w"
  "totEnemies (polled w) = totEnemies w"
  "health (heap (polled w) a) = health (heap w a)" "cls (heap (polled w) a) = cls (heap w a)"
  "body_id (heap (polled w) a) = body_id (heap w a)"
  "raw_input (heap (polled w) a) = raw_input (heap w a)"
  "action_1 (controller (heap (polled w) (player w))) = raw_input (heap w (player w)) 32"
  by (simp_all add: polled_def upd_def pollController_fields)

lemma ages_polled: "ages w (polled w)"
  by (simp add: ages_def polled_fields)

lemma evolves_settled: "evolves w (settled w)"
proof -
  let ?w3 = "if collision_handler w then collision_update w else w"
  have "evolves w ?w3" by (simp add: evolves_collision_update evolves_refl)
  also have "evolves ?w3 (flush_removals ?w3)" by (rule evolves_flush_removals)
  finally show ?thesis by (simp add: settled_def)
qed

lemma evolves_middle:
  assumes "move_entities d as w1 = Inr w2"
  shows "evolves w1 (settled w2)"
  using evolves_trans [OF evolves_move_entities [OF assms] evolves_settled] .

lemma spawn_enemies_fields:
  "ages w (spawn_enemies d r w)" "player (spawn_enemies d r w) = player w"
  "\<forall>a < next_addr w. controller (heap (spawn_enemies d r w) a) = controller (heap w a)"
  "\<forall>e \<in> set (entities (spawn_enemies d r w)). e \<in> set (entities w) \<or> snd e < next_addr (spawn_enemies d r w)"
proof -
  have s: "\<And>k a es e. e \<in> set (reg_set k a es) \<Longrightarrow> e \<in> set es \<or> snd e = a"
    using set_reg_set by fastforce
  show "ages w (spawn_enemies d r w)" "player (spawn_enemies d r w) = player w"
    "\<forall>a < next_addr w. controller (heap (spawn_enemies d r w) a) = controller (heap w a)"
    by (simp_all add: spawn_enemies_def enemySpawner_update_def new_Enemy_def new_Body_def
        Let_def upd_def ages_def split: option.splits)
  show "\<forall>e \<in> set (entities (spawn_enemies d r w)). e \<in> set (entities w) \<or> snd e < next_addr (spawn_enemies d r w)"
    by (auto simp: spawn_enemies_def enemySpawner_update_def new_Enemy_def new_Body_def
        Let_def upd_def split: option.splits dest: s)
qed

lemma start_fields:
  "entities (start w) = [(0, next_addr w)]" "queued_entities_for_removal (start w) = []"
  "running_id (start w) = 1" "player (start w) = next_addr w" "next_addr (start w) = Suc (next_addr w)"
  "hitEnemies (start w) = 0" "timeElasped (start w) = 0" "totEnemies (start w) = 0"
  "score (start w) = score w"
  "enemy_spawner (start w) = Some \<lparr>spawn_timer = 0, spawn_rate = 7 / 10\<rparr>"
  "body_id (heap (start w) (next_addr w)) = 0" "cls (heap (start w) (next_addr w)) = Player"
  "health (heap (start w) (next_addr w)) = 100"
  "a \<noteq> next_addr w \<Longrightarrow> heap (start w) a = heap w a"
  by (simp_all add: start_def new_Player_def new_Body_def Let_def upd_def default_body_def)

lemma ages_start: "ages w (start w)"
  by (simp add: ages_def start_fields)

lemma bookkeeping_fields:
  "heap (bookkeeping d w) = heap (if restart_wanted w then start w else w)"
  "player (bookkeeping d w) = player (if restart_wanted w then start w else w)"
  "next_addr (bookkeeping d w) = next_addr (if restart_wanted w then start w else w)"
  "entities (bookkeeping d w) = entities (if restart_wanted w then start w else w)"
  "totEnemies (bookkeeping d w) = totEnemies (if restart_wanted w then start w else w)"
  "enemy_spawner (bookkeeping d w) = enemy_spawner (if restart_wanted w then start w else w)"
  by (simp_all add: bookkeeping_def Let_def)

lemma ages_bookkeeping: "ages w (bookkeeping d w)"
  using ages_start [of w] by (simp add: ages_def bookkeeping_fields)

lemma ages_update:
  assumes "update d r w = Inr w'"
  shows "ages w w'"
proof -
  from assms obtain w2 where m: "move_entities d (Object_values (entities w)) (polled w) = Inr w2"
    and w': "w' = bookkeeping d (spawn_enemies d r (settled w2))"
    by (rule update_phases)
  have "ages w (polled w)" by (rule ages_polled)
  also have "ages (polled w) (settled w2)" using evolves_middle [OF m] by (rule evolves_ages)
  also have "ages (settled w2) (spawn_enemies d r (settled w2))" by (rule spawn_enemies_fields)
  also have "ages (spawn_enemies d r (settled w2)) w'" unfolding w' by (rule ages_bookkeeping)
  finally show ?thesis .
qed

lemma allocated_update:
  assumes al: "allocated w" and u: "update d r w = Inr w'"
  shows "allocated w'"
proof -
  from u obtain w2 where m: "move_entities d (Object_values (entities w)) (polled w) = Inr w2"
    and w': "w' = bookkeeping d (spawn_enemies d r (settled w2))"
    by (rule update_phases)
  let ?s = "settled w2"
  let ?t = "spawn_enemies d r ?s"
  have ev: "evolves (polled w) ?s" using m by (rule evolves_middle)
  have n1: "next_addr w \<le> next_addr ?s"
    using ev by (simp add: evolves_def ages_def polled_fields)
  have a1: "allocated ?s"
    unfolding allocated_def
  proof (intro conjI ballI)
    show "player ?s < next_addr ?s" using ev al n1 by (simp add: evolves_def polled_fields allocated_def)
  next
    fix e assume "e \<in> set (entities ?s)"
    then have "e \<in> set (entities w) \<or> snd e < next_addr ?s"
      using ev by (auto simp: evolves_def polled_fields)
    then show "snd e < next_addr ?s" using al n1 by (auto simp: allocated_def)
  qed
  have n2: "next_addr ?s \<le> next_addr ?t"
    using spawn_enemies_fields(1) [where w = "?s" and d = d and r = r] by (simp add: ages_def)
  have a2: "allocated ?t"
    unfolding allocated_def
  proof (intro conjI ballI)
    show "player ?t < next_addr ?t" using a1 n2 by (simp add: spawn_enemies_fields allocated_def)
  next
    fix e assume "e \<in> set (entities ?t)"
    then have "e \<in> set (entities ?s) \<or> snd e < next_addr ?t"
      using spawn_enemies_fields(4) [where w = "?s" and d = d and r = r] by blast
    then show "snd e < next_addr ?t" using a1 n2 by (auto simp: allocated_def)
  qed
  have a3: "allocated (start ?t)"
    by (simp add: allocated_def start_fields)
  show ?thesis
    unfolding w' using a2 a3 by (simp add: allocated_def bookkeeping_fields)
qed

lemma draw_fields:
  "heap (draw w) = heap w" "player (draw w) = player w" "next_addr (draw w) = next_addr w"
  "entities (draw w) = entities w" "totEnemies (draw w) = totEnemies w"
  by (simp_all add: draw_def)

lemma key_fields:
  "health (heap (window_keydown k w) a) = health (heap w a)"
  "health (heap (window_keyup k w) a) = health (heap w a)"
  "player (window_keydown k w) = player w" "player (window_keyup k w) = player w"
  "next_addr (window_keydown k w) = next_addr w" "next_addr (window_keyup k w) = next_addr w"
  "entities (window_keydown k w) = entities w" "entities (window_keyup k w) = entities w"
  "enemy_spawner (window_keydown k w) = enemy_spawner w"
  "enemy_spawner (window_keyup k w) = enemy_spawner w"
  by (simp_all add: window_keydown_def window_keyup_def upd_def keydown_def keyup_def)

lemma reachable_invariant:
  assumes "reachable w"
  shows "allocated w \<and> (isDead (heap w (player w)) \<longrightarrow> enemy_spawner w = None)"
  using assms
proof (induction rule: reachable.induct)
  case (reachable_start w)
  show ?case by (simp add: allocated_def start_fields isDead_def)
next
  case (reachable_keydown w k)
  then show ?case by (simp add: allocated_def key_fields isDead_def)
next
  case (reachable_keyup w k)
  then show ?case by (simp add: allocated_def key_fields isDead_def)
next
  case (reachable_frame w d r w')
  then have "allocated w'" using allocated_update by blast
  then have "allocated (draw w')" by (simp add: allocated_def draw_fields)
  moreover have "isDead (heap (draw w') (player (draw w'))) \<longrightarrow> enemy_spawner (draw w') = None"
    by (simp add: draw_def)
  ultimately show ?case by simp
qed

section \<open>The rounding\<close>

text \<open>
  \<open>exponent\<close> is the binary exponent, and \<open>round_double\<close> is off by at most half the
  spacing.
\<close>

lemma pow2_pos: "0 < pow2 e"
  by (simp add: pow2_def)

lemma pow2_Suc: "pow2 (e + 1) = 2 * pow2 e"
proof (cases "0 \<le> e")
  case True
  then show ?thesis by (simp add: pow2_def nat_add_distrib)
next
  case False
  then have "nat (- e) = Suc (nat (- (e + 1)))" by simp
  then show ?thesis using False by (simp add: pow2_def)
qed

lemma exponent_bounds:
  assumes "0 < q"
  shows "pow2 (exponent q) \<le> q \<and> q < pow2 (exponent q + 1)"
proof (cases "1 \<le> q")
  case True
  let ?n = "nat \<lfloor>q\<rfloor>"
  have n: "0 < ?n" using True by simp
  have fl: "0 < floorlog 2 ?n" using n by (simp add: floorlog_def)
  have b: "2 ^ (floorlog 2 ?n - 1) \<le> ?n" "?n < 2 ^ floorlog 2 ?n"
    using floorlog_bounds [of ?n 2] n by simp_all
  have e: "exponent q = int (floorlog 2 ?n - 1)"
    using True fl by (simp add: exponent_def)
  have nq: "real ?n \<le> q" "q < real ?n + 1"
    using True by linarith+
  have "real (2 ^ (floorlog 2 ?n - 1)) \<le> real ?n"
    using b(1) by (simp only: of_nat_le_iff)
  then have lo: "(2::real) ^ (floorlog 2 ?n - 1) \<le> real ?n" by simp
  have "Suc ?n \<le> 2 ^ floorlog 2 ?n" using b(2) by (rule Suc_leI)
  then have "real (Suc ?n) \<le> real (2 ^ floorlog 2 ?n)" by (simp only: of_nat_le_iff)
  then have hi: "real ?n + 1 \<le> (2::real) ^ floorlog 2 ?n" by simp
  have s: "floorlog 2 ?n = Suc (floorlog 2 ?n - 1)" using fl by simp
  have hi': "real ?n + 1 \<le> 2 * (2::real) ^ (floorlog 2 ?n - 1)"
    using hi by (subst (asm) s) simp
  have p: "pow2 (exponent q) = 2 ^ (floorlog 2 ?n - 1)" by (simp add: e pow2_def)
  have "pow2 (exponent q) \<le> q" using lo nq(1) p by linarith
  moreover have "q < pow2 (exponent q + 1)"
    unfolding pow2_Suc p using hi' nq(2) by linarith
  ultimately show ?thesis by simp
next
  case False
  let ?m = "\<lceil>1 / q\<rceil>"
  let ?n = "nat (?m - 1)"
  have q1: "1 < 1 / q" using assms False by simp
  have m: "2 \<le> ?m" using q1 by linarith
  have n: "0 < ?n" using m by simp
  let ?k = "floorlog 2 ?n"
  have fl: "0 < ?k" using n by (simp add: floorlog_def)
  have b: "2 ^ (?k - 1) \<le> ?n" "?n < 2 ^ ?k"
    using floorlog_bounds [of ?n 2] n by simp_all
  have e: "exponent q = - int ?k" using False by (simp add: exponent_def)
  have "0 \<le> ?m - 1" using m by linarith
  then have "real ?n = of_int (?m - 1)" by (rule of_nat_nat)
  then have rn: "real ?n = of_int ?m - 1" by (simp only: of_int_diff of_int_1)
  have up: "1 / q \<le> of_int ?m" by linarith
  have dn: "of_int ?m - 1 < 1 / q" by linarith
  have "Suc ?n \<le> 2 ^ ?k" using b(2) by (rule Suc_leI)
  then have "real (Suc ?n) \<le> real (2 ^ ?k)" by (simp only: of_nat_le_iff)
  then have "real ?n + 1 \<le> (2::real) ^ ?k" by simp
  then have a: "1 / q \<le> 2 ^ ?k" using up rn by linarith
  have "real (2 ^ (?k - 1)) \<le> real ?n" using b(1) by (simp only: of_nat_le_iff)
  then have "(2::real) ^ (?k - 1) \<le> real ?n" by simp
  then have c: "(2::real) ^ (?k - 1) < 1 / q" using dn rn by linarith
  have lo: "1 / 2 ^ ?k \<le> q"
  proof -
    have "1 \<le> q * 2 ^ ?k" using a assms by (simp add: field_simps)
    then show ?thesis by (simp add: field_simps)
  qed
  have s: "?k = Suc (?k - 1)" using fl by simp
  have hi: "q < 2 / 2 ^ ?k"
  proof -
    have "q * 2 ^ (?k - 1) < 1" using c assms by (simp add: field_simps)
    then have "q * 2 ^ ?k < 2" by (subst s) simp
    then show ?thesis by (simp add: field_simps)
  qed
  have p: "pow2 (exponent q) = 1 / 2 ^ ?k" using fl by (simp add: e pow2_def)
  have "pow2 (exponent q) \<le> q" using lo p by simp
  moreover have "q < pow2 (exponent q + 1)"
    unfolding pow2_Suc p using hi by simp
  ultimately show ?thesis by simp
qed

lemma round_half_even_nearest: "\<bar>of_int (round_half_even q) - q\<bar> \<le> 1 / 2"
  unfolding round_half_even_def Let_def by (auto simp: abs_if) linarith+

lemma round_double_nearest:
  assumes "q \<noteq> 0"
  shows "\<bar>round_double q - q\<bar> \<le> pow2 (max (exponent \<bar>q\<bar>) (- 1022) - 52) / 2"
proof -
  let ?u = "pow2 (max (exponent \<bar>q\<bar>) (- 1022) - 52)"
  have u: "0 < ?u" by (rule pow2_pos)
  let ?n = "real_of_int (round_half_even (q / ?u))"
  have "round_double q - q = (?n - q / ?u) * ?u"
    using assms u by (simp add: round_double_def Let_def field_simps)
  then have "\<bar>round_double q - q\<bar> = \<bar>?n - q / ?u\<bar> * \<bar>?u\<bar>"
    by (simp only: abs_mult)
  also have "\<dots> = \<bar>?n - q / ?u\<bar> * ?u" using u by simp
  also have "\<dots> \<le> (1 / 2) * ?u"
    using round_half_even_nearest [of "q / ?u"] u by (intro mult_right_mono) simp_all
  finally show ?thesis by simp
qed

section \<open>Running the definitions\<close>

lemmas model_defs = update_def Let_def upd_def Object_values_def pollController_def poll_axis_x_def
  poll_axis_y_def poll_button_def resetController_def entity_update_def Player_update_def
  Player_move_def horizontal_move_def vertical_move_def diagonal_move_def fire_def clip_def
  Body_update_def Enemy_update_def projectile_update_def remove_def collision_update_def
  resolve_def checkCollision_def flush_removals_def reg_delete_def spawn_enemies_def
  enemySpawner_update_def new_Enemy_def new_Body_def new_projectile_def bookkeeping_def
  restart_wanted_def isDead_def start_def new_Player_def canvas_width_def canvas_height_def
  default_body_def draw_def window_keydown_def window_keyup_def keydown_def keyup_def

lemmas demo_defs = demo_world_def demo_player_def demo_enemy_def demo_shot_def demo_over_def

lemma reachable_play: "reachable w \<Longrightarrow> reachable (play d r w)"
  by (auto simp: play_def reachable_frame split: sum.splits)

lemmas float_defs = fdiv_def fsub_def round_double_def exponent_def pow2_def round_half_even_def
  compute_floorlog

lemma seconds_value: "update_rate_seconds = 4803839602528529 / 288230376151711744"
  by (simp add: update_rate_seconds_def float_defs Let_def)

lemma double_0_05: "fdiv 50 1000 = 3602879701896397 / 72057594037927936"
  by (simp add: float_defs Let_def)

lemma remainders:
  "fsub (3602879701896397 / 72057594037927936) (4803839602528529 / 288230376151711744) = 2401919801264265 / 72057594037927936"
  "fsub (2401919801264265 / 72057594037927936) (4803839602528529 / 288230376151711744) = 4803839602528531 / 288230376151711744"
  "fsub (4803839602528531 / 288230376151711744) (4803839602528529 / 288230376151711744) = 1 / 144115188075855872"
  by (simp_all add: float_defs Let_def)

lemma loop_while_0_05:
  "loop_while (3602879701896397 / 72057594037927936) curr_time rs w =
     (case update (4803839602528529 / 288230376151711744) (rs 0) w of
        Inl e \<Rightarrow> Some (Inl e)
      | Inr w1 \<Rightarrow>
          (case update (4803839602528529 / 288230376151711744) (rs (Suc 0)) (end_of_step curr_time w1) of
             Inl e \<Rightarrow> Some (Inl e)
           | Inr w2 \<Rightarrow>
               (case update (4803839602528529 / 288230376151711744) (rs (Suc (Suc 0)))
                       (end_of_step curr_time w2) of
                  Inl e \<Rightarrow> Some (Inl e)
                | Inr w3 \<Rightarrow> Some (Inr (1 / 144115188075855872, end_of_step curr_time w3)))))"
proof -
  let ?s = "4803839602528529 / 288230376151711744 :: real"
  have l3: "loop_while (1 / 144115188075855872) c r v = Some (Inr (1 / 144115188075855872, v))" for c r v
    by (subst loop_while.simps) (simp add: seconds_value)
  have l2: "loop_while (4803839602528531 / 288230376151711744) c r v =
      (case update ?s (r 0) v of Inl e \<Rightarrow> Some (Inl e)
       | Inr v1 \<Rightarrow> Some (Inr (1 / 144115188075855872, end_of_step c v1)))" for c r v
    by (subst loop_while.simps) (simp add: seconds_value remainders l3 cong: sum.case_cong)
  have l1: "loop_while (2401919801264265 / 72057594037927936) c r v =
      (case update ?s (r 0) v of Inl e \<Rightarrow> Some (Inl e)
       | Inr v1 \<Rightarrow> (case update ?s (r (Suc 0)) (end_of_step c v1) of Inl e \<Rightarrow> Some (Inl e)
          | Inr v2 \<Rightarrow> Some (Inr (1 / 144115188075855872, end_of_step c v2))))" for c r v
    by (subst loop_while.simps) (simp add: seconds_value remainders l2 cong: sum.case_cong)
  have l0: "loop_while (3602879701896397 / 72057594037927936) curr_time rs w =
      (case update ?s (rs 0) w of Inl e \<Rightarrow> Some (Inl e)
       | Inr w1 \<Rightarrow> (case update ?s (rs (Suc 0)) (end_of_step curr_time w1) of Inl e \<Rightarrow> Some (Inl e)
          | Inr w2 \<Rightarrow> (case update ?s (rs (Suc (Suc 0))) (end_of_step curr_time w2) of Inl e \<Rightarrow> Some (Inl e)
             | Inr w3 \<Rightarrow> Some (Inr (1 / 144115188075855872, end_of_step curr_time w3)))))"
    by (subst loop_while.simps) (simp add: seconds_value remainders l1 cong: sum.case_cong)
  show ?thesis
    using l0 by (simp cong: sum.case_cong)
qed

section \<open>The registry holds each object once\<close>

lemma tidy_same: "entities w' = entities w \<Longrightarrow> next_addr w' = next_addr w \<Longrightarrow> tidy w' = tidy w"
  by (simp add: tidy_def)

lemma distinct_reg_set:
  "distinct (map snd es) \<Longrightarrow> a \<notin> snd ` set es \<Longrightarrow> distinct (map snd (reg_set k a es))"
proof (induction es)
  case Nil
  show ?case by simp
next
  case (Cons e es)
  obtain k' a' where e: "e = (k', a')" by (cases e)
  have ih: "distinct (map snd (reg_set k a es))" using Cons by simp
  have "snd ` set (reg_set k a es) \<subseteq> insert a (snd ` set es)"
    using set_reg_set [of k a es] by force
  then have "a' \<notin> snd ` set (reg_set k a es)" using Cons.prems e by auto
  then show ?case using Cons.prems ih e by auto
qed

lemma tidy_new_Body: "tidy w \<Longrightarrow> tidy (snd (new_Body w))"
proof -
  assume t: "tidy w"
  have f: "next_addr w \<notin> snd ` set (entities w)" using t by (auto simp: tidy_def)
  have d: "distinct (map snd (reg_set (running_id w) (next_addr w) (entities w)))"
    using t f by (simp add: tidy_def distinct_reg_set)
  have "\<forall>e \<in> set (reg_set (running_id w) (next_addr w) (entities w)). snd e < Suc (next_addr w)"
    using t set_reg_set [of "running_id w" "next_addr w" "entities w"]
    by (fastforce simp: tidy_def less_Suc_eq)
  then show ?thesis using d by (simp add: tidy_def new_Body_def Let_def)
qed

lemma tidy_upd: "tidy (upd a f w) = tidy w"
  by (simp add: tidy_def upd_def)

lemma tidy_remove: "tidy (remove a w) = tidy w"
  by (simp add: tidy_def remove_def)

lemma tidy_new_projectile: "tidy w \<Longrightarrow> new_projectile w = Inr w' \<Longrightarrow> tidy w'"
  using tidy_new_Body [of w]
  by (auto simp: new_projectile_def Let_def tidy_upd split: prod.splits option.splits)

lemma tidy_new_Enemy: "tidy w \<Longrightarrow> tidy (new_Enemy r w)"
  using tidy_new_Body [of w]
  by (auto simp: new_Enemy_def Let_def tidy_upd split: prod.splits)

lemma tidy_fire: "tidy w \<Longrightarrow> fire a w = Inr w' \<Longrightarrow> tidy w'"
  using tidy_new_projectile [of "upd a (\<lambda>b. b\<lparr>timer := 0\<rparr>) w" w']
  by (auto simp: fire_def Let_def tidy_upd split: if_splits)

lemma tidy_Player_update: "tidy w \<Longrightarrow> Player_update d a w = Inr w' \<Longrightarrow> tidy w'"
proof -
  assume t: "tidy w" and p: "Player_update d a w = Inr w'"
  let ?w2 = "upd a (\<lambda>b. b\<lparr>timer := timer b + d\<rparr>) (upd a Player_move w)"
  from p obtain w3 where f: "fire a ?w2 = Inr w3"
    and w': "w' = upd a clip (upd a (Body_update d) w3)"
    by (auto simp: Player_update_def Let_def split: sum.splits)
  have "tidy ?w2" using t by (simp add: tidy_upd)
  then have "tidy w3" using f by (rule tidy_fire)
  then show ?thesis by (simp add: w' tidy_upd)
qed

lemma tidy_Enemy_update: "tidy (Enemy_update d a w) = tidy w"
  by (simp add: Enemy_update_def Let_def tidy_upd tidy_remove)

lemma tidy_projectile_update: "tidy (projectile_update d a w) = tidy w"
  by (simp add: projectile_update_def Let_def tidy_upd tidy_remove)

lemma tidy_entity_update: "tidy w \<Longrightarrow> entity_update d a w = Inr w' \<Longrightarrow> tidy w'"
  by (auto simp: entity_update_def tidy_Player_update tidy_Enemy_update tidy_projectile_update
      split: body_class.splits)

lemma tidy_move_entities: "tidy w \<Longrightarrow> move_entities d as w = Inr w' \<Longrightarrow> tidy w'"
proof (induction as arbitrary: w)
  case Nil
  then show ?case by simp
next
  case (Cons a as)
  then obtain w1 where 1: "entity_update d a w = Inr w1" and 2: "move_entities d as w1 = Inr w'"
    by (auto split: sum.splits)
  show ?case using Cons.IH [OF tidy_entity_update [OF Cons.prems(1) 1] 2] .
qed

lemma distinct_fold_reg_delete:
  "distinct (map snd es) \<Longrightarrow> distinct (map snd (fold reg_delete ks es))"
  by (induction ks arbitrary: es) (simp_all add: reg_delete_def distinct_map_filter)

lemma tidy_settled: "tidy w \<Longrightarrow> tidy (settled w)"
  using set_fold_reg_delete [of "queued_entities_for_removal (collision_update w)" "entities w"]
    set_fold_reg_delete [of "queued_entities_for_removal w" "entities w"]
  by (auto simp: tidy_def settled_def flush_removals_def collision_update_closed
      collision_result_def distinct_fold_reg_delete)

lemma tidy_spawn_enemies: "tidy w \<Longrightarrow> tidy (spawn_enemies d r w)"
proof -
  assume t: "tidy w"
  have "tidy (new_Enemy r (w\<lparr>enemy_spawner := s\<rparr>))" for s
    using t by (intro tidy_new_Enemy) (simp add: tidy_def)
  then have "tidy ((new_Enemy r (w\<lparr>enemy_spawner := s\<rparr>))\<lparr>totEnemies := n\<rparr>)" for s n
    by (simp add: tidy_def)
  then show ?thesis
    using t by (auto simp: spawn_enemies_def enemySpawner_update_def Let_def tidy_def
        split: option.splits)
qed

lemma tidy_start: "tidy (start w)"
  by (simp add: tidy_def start_fields)

lemma tidy_bookkeeping: "tidy w \<Longrightarrow> tidy (bookkeeping d w)"
  using tidy_start [of w] by (simp add: tidy_def bookkeeping_fields)

lemma tidy_polled: "tidy (polled w) = tidy w"
  by (simp add: polled_def tidy_upd)

lemma tidy_update: "tidy w \<Longrightarrow> update d r w = Inr w' \<Longrightarrow> tidy w'"
proof -
  assume t: "tidy w" and u: "update d r w = Inr w'"
  from u obtain w2 where m: "move_entities d (Object_values (entities w)) (polled w) = Inr w2"
    and w': "w' = bookkeeping d (spawn_enemies d r (settled w2))"
    by (rule update_phases)
  have "tidy (polled w)" using t by (simp add: tidy_polled)
  then have "tidy w2" using m by (rule tidy_move_entities)
  then show ?thesis
    unfolding w' by (intro tidy_bookkeeping tidy_spawn_enemies tidy_settled)
qed

lemma reachable_tidy: "reachable w \<Longrightarrow> tidy w"
proof (induction rule: reachable.induct)
  case (reachable_start w)
  show ?case by (rule tidy_start)
next
  case (reachable_keydown w k)
  then show ?case by (simp add: window_keydown_def tidy_upd)
next
  case (reachable_keyup w k)
  then show ?case by (simp add: window_keyup_def tidy_upd)
next
  case (reachable_frame w d r w')
  then have "tidy w'" using tidy_update by blast
  then show ?case by (simp add: tidy_def draw_fields)
qed

lemma collisions_on_distinct_objects:
  assumes "reachable w"
    and "move_entities d (Object_values (entities w)) (polled w) = Inr w2"
  shows "distinct (Object_values (entities w2))"
proof -
  have "tidy (polled w)" using assms(1) by (simp add: tidy_polled reachable_tidy)
  then have "tidy w2" using assms(2) by (rule tidy_move_entities)
  then show ?thesis by (simp add: tidy_def Object_values_def)
qed

section \<open>C1: the collision test\<close>



section \<open>C2: collisions of the player\<close>

text \<open>
  C2: for a colliding ordered pair whose first body has id 0, the resolution takes exactly
  50 from the health of that body and queues the id of the other; a collision run never
  queues id 0, and takes from the health of an object 50 for each such pair that it heads;
  \<open>draw\<close> and the key events leave every health as it is; an \<open>update\<close> never raises the
  health of an object that exists; and a dead active player stays dead through an
  \<open>update\<close>, and stays the active player unless the fire key (32) is down, that is,
  until the restart.
\<close>

theorem player_health_only_decreases:
  "(collides w a1 a2 \<and> body_id (heap w a1) = 0 \<longrightarrow>
      health (heap (resolve a1 a2 w) a1) = health (heap w a1) - 50
      \<and> queued_entities_for_removal (resolve a1 a2 w)
          = queued_entities_for_removal w @ [body_id (heap w a2)])
   \<and> (\<exists>qs. queued_entities_for_removal (collision_update w) = queued_entities_for_removal w @ qs
          \<and> 0 \<notin> set qs)
   \<and> (\<forall>a. health (heap (collision_update w) a)
          = health (heap w a) - 50 * real (length (filter (\<lambda>p. fst p = a \<and> player_hit w p) (pairs w))))
   \<and> (\<forall>a. health (heap (draw w) a) = health (heap w a)
          \<and> health (heap (window_keydown k w) a) = health (heap w a)
          \<and> health (heap (window_keyup k w) a) = health (heap w a))
   \<and> (update d r w = Inr w' \<longrightarrow>
        (\<forall>a < next_addr w. health (heap w' a) \<le> health (heap w a))
        \<and> (player w < next_addr w \<and> isDead (heap w (player w)) \<longrightarrow>
             isDead (heap w' (player w))
             \<and> (player w' = player w \<or> raw_input (heap w (player w)) 32)))"
proof (intro conjI impI allI)
  assume c: "collides w a1 a2 \<and> body_id (heap w a1) = 0"
  then show "health (heap (resolve a1 a2 w) a1) = health (heap w a1) - 50"
    by (simp add: resolve_def collides_def remove_def upd_def)
  from c show "queued_entities_for_removal (resolve a1 a2 w)
          = queued_entities_for_removal w @ [body_id (heap w a2)]"
    by (auto simp: resolve_def collides_def remove_def upd_def)
next
  have "0 \<notin> set (concat (map (pushes w) (pairs w)))"
    using zero_not_pushed by auto
  then show "\<exists>qs. queued_entities_for_removal (collision_update w)
       = queued_entities_for_removal w @ qs \<and> 0 \<notin> set qs"
    by (simp add: collision_update_closed collision_result_def)
next
  fix a
  show "health (heap (collision_update w) a)
          = health (heap w a) - 50 * real (length (filter (\<lambda>p. fst p = a \<and> player_hit w p) (pairs w)))"
    by (simp add: collision_update_closed collision_result_def damage_def)
  show "health (heap (draw w) a) = health (heap w a)" by (simp add: draw_fields)
  show "health (heap (window_keydown k w) a) = health (heap w a)" by (simp add: key_fields)
  show "health (heap (window_keyup k w) a) = health (heap w a)" by (simp add: key_fields)
next
  fix a
  assume u: "update d r w = Inr w'" and a: "a < next_addr w"
  show "health (heap w' a) \<le> health (heap w a)"
    using ages_update [OF u] a by (simp add: ages_def)
next
  assume u: "update d r w = Inr w'"
    and p: "player w < next_addr w \<and> isDead (heap w (player w))"
  show "isDead (heap w' (player w))"
    using ages_update [OF u] p by (auto simp: ages_def isDead_def)
  show "player w' = player w \<or> raw_input (heap w (player w)) 32"
  proof (cases "raw_input (heap w (player w)) 32")
    case True
    then show ?thesis by simp
  next
    case False
    from u obtain w2 where m: "move_entities d (Object_values (entities w)) (polled w) = Inr w2"
      and w': "w' = bookkeeping d (spawn_enemies d r (settled w2))"
      by (rule update_phases)
    let ?s = "settled w2"
    let ?t = "spawn_enemies d r ?s"
    have ev: "evolves (polled w) ?s" using m by (rule evolves_middle)
    have ps: "player ?s = player w" "player w < next_addr ?s"
      "controller (heap ?s (player w)) = controller (heap (polled w) (player w))"
      using ev p by (auto simp: evolves_def ages_def polled_fields)
    have pt: "player ?t = player w"
      "controller (heap ?t (player w)) = controller (heap (polled w) (player w))"
      using ps spawn_enemies_fields(2,3) [where w = "?s" and d = d and r = r] by simp_all
    have "\<not> restart_wanted ?t"
      using pt False by (simp add: restart_wanted_def polled_fields)
    then show ?thesis using pt by (simp add: w' bookkeeping_fields)
  qed
qed

theorem player_health_only_decreases_witness:
  "collides demo_world 0 1 \<and> body_id (heap demo_world 0) = 0
   \<and> health (heap (resolve 0 1 demo_world) 0) = health (heap demo_world 0) - 50
   \<and> player demo_over < next_addr demo_over \<and> isDead (heap demo_over (player demo_over))
   \<and> (\<exists>w'. update (1 / 60) (1 / 2) demo_over = Inr w' \<and> isDead (heap w' (player demo_over))
          \<and> health (heap w' 0) \<le> health (heap demo_over 0))"
proof -
  have c: "collides demo_world 0 1 \<and> body_id (heap demo_world 0) = 0"
    by (simp add: collides_def checkCollision_def demo_defs default_body_def)
  have p: "player demo_over < next_addr demo_over \<and> isDead (heap demo_over (player demo_over))"
    "0 < next_addr demo_over"
    by (simp_all add: isDead_def demo_defs)
  obtain w' where u: "update (1 / 60) (1 / 2) demo_over = Inr w'"
    by (simp add: model_defs demo_defs)
  note t1 = player_health_only_decreases [where w = demo_world and ?a1.0 = 0 and ?a2.0 = 1]
  note t2 = player_health_only_decreases [where w = demo_over and d = "1 / 60" and r = "1 / 2"
      and w' = w']
  have h1: "health (heap (resolve 0 1 demo_world) 0) = health (heap demo_world 0) - 50"
    using t1 c by blast
  have h2: "isDead (heap w' (player demo_over))" using t2 u p(1) by blast
  have h3: "health (heap w' 0) \<le> health (heap demo_over 0)" using t2 u p(2) by blast
  show ?thesis using c p(1) u h1 h2 h3 by blast
qed

section \<open>C3: a collision between two bodies other than the player\<close>

text \<open>
  C3: one run of \<open>collisionHandler.update\<close> adds to \<open>hitEnemies\<close> 1 for every ordered
  pair of colliding bodies neither of which has id 0, that is, when the registry holds each
  object once (as it does where \<open>update\<close> runs the collisions, by
  \<open>collisions_on_distinct_objects\<close>), exactly 2 for every unordered pair; such a pair is
  visited in both orders, collides in both, and the ids of both bodies are in the removal
  queue afterwards.
\<close>

theorem enemy_pair_counted_twice_and_removed:
  "hitEnemies (collision_update w) = hitEnemies w + length (filter (enemy_hit w) (pairs w))
   \<and> (distinct (Object_values (entities w)) \<longrightarrow>
         length (filter (enemy_hit w) (pairs w))
           = 2 * length (filter (\<lambda>p. fst p < snd p \<and> enemy_hit w p) (pairs w)))
   \<and> (\<forall>a1 a2. a1 \<in> set (Object_values (entities w)) \<and> a2 \<in> set (Object_values (entities w))
            \<and> enemy_hit w (a1, a2) \<longrightarrow>
              (a1, a2) \<in> set (pairs w) \<and> (a2, a1) \<in> set (pairs w) \<and> enemy_hit w (a2, a1)
              \<and> body_id (heap w a1) \<in> set (queued_entities_for_removal (collision_update w))
              \<and> body_id (heap w a2) \<in> set (queued_entities_for_removal (collision_update w)))"
proof (intro conjI allI impI)
  show "hitEnemies (collision_update w) = hitEnemies w + length (filter (enemy_hit w) (pairs w))"
    by (simp add: collision_update_closed collision_result_def)
next
  assume "distinct (Object_values (entities w))"
  then show "length (filter (enemy_hit w) (pairs w))
           = 2 * length (filter (\<lambda>p. fst p < snd p \<and> enemy_hit w p) (pairs w))"
    unfolding pairs_def by (rule count_both_orders)
next
  fix a1 a2
  assume h: "a1 \<in> set (Object_values (entities w)) \<and> a2 \<in> set (Object_values (entities w))
            \<and> enemy_hit w (a1, a2)"
  then show m1: "(a1, a2) \<in> set (pairs w)" and "(a2, a1) \<in> set (pairs w)"
    by (simp_all add: pairs_def)
  show "enemy_hit w (a2, a1)" using h by (simp add: enemy_hit_swap)
  have "set (pushes w (a1, a2)) \<subseteq> set (queued_entities_for_removal (collision_update w))"
    using m1 by (auto simp: collision_update_closed collision_result_def)
  then show "body_id (heap w a1) \<in> set (queued_entities_for_removal (collision_update w))"
    and "body_id (heap w a2) \<in> set (queued_entities_for_removal (collision_update w))"
    using h by (simp_all add: enemy_hit_pushes)
qed

theorem enemy_pair_counted_twice_and_removed_witness:
  "distinct (Object_values (entities demo_world)) \<and> enemy_hit demo_world (1, 2)
   \<and> hitEnemies (collision_update demo_world) = hitEnemies demo_world + 2
   \<and> 1 \<in> set (queued_entities_for_removal (collision_update demo_world))
   \<and> 2 \<in> set (queued_entities_for_removal (collision_update demo_world))"
proof -
  have d: "distinct (Object_values (entities demo_world))"
    by (simp add: demo_world_def Object_values_def)
  have h: "enemy_hit demo_world (1, 2)"
    by (simp add: enemy_hit_def collides_def checkCollision_def demo_world_def
        demo_enemy_def demo_shot_def default_body_def)
  have n: "length (filter (\<lambda>p. fst p < snd p \<and> enemy_hit demo_world p) (pairs demo_world)) = 1"
    by (simp add: pairs_def Object_values_def enemy_hit_def collides_def checkCollision_def
        demo_world_def demo_player_def demo_enemy_def demo_shot_def default_body_def)
  have m: "1 \<in> set (Object_values (entities demo_world)) \<and>
     2 \<in> set (Object_values (entities demo_world)) \<and> enemy_hit demo_world (1, 2)"
    using h by (simp add: demo_world_def Object_values_def)
  have i: "body_id (heap demo_world 1) = 1" "body_id (heap demo_world 2) = 2"
    by (simp_all add: demo_world_def demo_enemy_def demo_shot_def)
  note t = enemy_pair_counted_twice_and_removed [of demo_world]
  have c: "hitEnemies (collision_update demo_world) = hitEnemies demo_world + 2"
    using t d n by simp
  have q: "body_id (heap demo_world 1) \<in> set (queued_entities_for_removal (collision_update demo_world))
     \<and> body_id (heap demo_world 2) \<in> set (queued_entities_for_removal (collision_update demo_world))"
    using t m by blast
  show ?thesis
    using d h c q i by simp
qed

section \<open>C4: the descent of an enemy\<close>




section \<open>C5: the movement of the player\<close>




section \<open>C6: the player stays in the canvas\<close>



section \<open>C7: the restart\<close>

text \<open>
  C7, as stated, fails: on the game-over screen with the fire key down and a score of 70,
  \<open>start\<close> leaves the score at 70, and the step that restarts ends with an elapsed time of
  \<open>1 / 60\<close>, not 0.
\<close>

theorem restart_leaves_score_and_time_counterexample:
  "restart_wanted demo_over \<and> score demo_over = 70 \<and> score (start demo_over) = 70
   \<and> map_sum id timeElasped (update (1 / 60) (1 / 2) demo_over) = Inr (1 / 60)"
  by (simp add: model_defs demo_defs)

text \<open>
  C7, amended: when the player is dead and \<open>action_1\<close> is set at the restart check,
  \<open>start\<close> empties the registry and the removal queue, resets the id counter so that the
  new player gets id 0 (and is the only entry), and resets enemies-hit, elapsed time and
  enemies spawned to zero; it does not assign the score. The step then ends with the elapsed
  time at \<open>delta_time\<close> and the score recomputed to \<open>floor delta_time\<close>.
\<close>

theorem restart_reinitializes:
  assumes "restart_wanted w"
  shows "entities (start w) = [(0, player (start w))]
       \<and> body_id (heap (start w) (player (start w))) = 0
       \<and> cls (heap (start w) (player (start w))) = Player
       \<and> queued_entities_for_removal (start w) = [] \<and> running_id (start w) = 1
       \<and> hitEnemies (start w) = 0 \<and> timeElasped (start w) = 0 \<and> totEnemies (start w) = 0
       \<and> score (start w) = score w
       \<and> entities (bookkeeping d w) = entities (start w)
       \<and> queued_entities_for_removal (bookkeeping d w) = [] \<and> running_id (bookkeeping d w) = 1
       \<and> hitEnemies (bookkeeping d w) = 0 \<and> totEnemies (bookkeeping d w) = 0
       \<and> timeElasped (bookkeeping d w) = d \<and> score (bookkeeping d w) = \<lfloor>d\<rfloor>"
proof -
  have alive: "\<not> isDead (heap (start w) (player (start w)))"
    by (simp add: isDead_def start_fields)
  have b: "bookkeeping d w = (start w)\<lparr>timeElasped := d, score := \<lfloor>d\<rfloor>\<rparr>"
    using assms alive by (simp add: bookkeeping_def Let_def start_fields)
  show ?thesis by (simp add: b start_fields)
qed

theorem restart_reinitializes_witness:
  "restart_wanted demo_over
   \<and> timeElasped (start demo_over) = 0 \<and> score (start demo_over) = score demo_over
   \<and> timeElasped (bookkeeping (1 / 60) demo_over) = 1 / 60
   \<and> score (bookkeeping (1 / 60) demo_over) = 0
   \<and> entities (bookkeeping (1 / 60) demo_over) = [(0, 1)]"
proof -
  have r: "restart_wanted demo_over"
    by (simp add: restart_wanted_def isDead_def demo_defs)
  have p: "player (start demo_over) = 1"
    by (simp add: start_fields demo_defs)
  show ?thesis
    using restart_reinitializes [OF r, of "1 / 60"] r p by simp
qed

section \<open>C8: the steps run for 0.05 s of accumulated time\<close>

text \<open>
  C8, as stated, fails: called at 50 ms with \<open>last_time\<close> 0, so that \<open>delta_time\<close> is the
  number 0.05, \<open>loop\<close> runs three steps on \<open>demo_world\<close>, not two, and leaves
  \<open>2 ^ (- 57)\<close>. (After two steps \<open>delta_time\<close> is 0.016666666666666673, still above
  \<open>1 / 60 = 0.016666666666666666\<close>.)
\<close>

theorem loop_0_05_runs_three_steps_counterexample:
  "last_time demo_world = Some 0 \<and> loop_count demo_world = 0
   \<and> map_option (map_sum id (loop_count \<circ> snd)) (loop 50 demo_random demo_world) = Some (Inr 3)
   \<and> map_option (map_sum id fst) (loop 50 demo_random demo_world) = Some (Inr (1 / 2 ^ 57))"
proof -
  have z: "fsub (3602879701896397 / 72057594037927936) 0 = 3602879701896397 / 72057594037927936"
    by (simp add: float_defs Let_def)
  have l: "loop 50 demo_random demo_world
      = loop_while (3602879701896397 / 72057594037927936) (3602879701896397 / 72057594037927936)
          demo_random demo_world"
    by (simp add: loop_def Let_def double_0_05 z demo_world_def)
  show ?thesis
    unfolding l loop_while_0_05
    by (simp add: end_of_step_def demo_random_def model_defs demo_defs)
qed

text \<open>
  C8, amended: with \<open>delta_time\<close> the number 0.05 and the fixed step \<open>1 / 60\<close>, the
  \<open>while\<close> loop calls \<open>update\<close> exactly three times (fewer only if a call throws) and
  ends with \<open>delta_time = 2 ^ (- 57)\<close>, which is strictly less than one fixed step.
\<close>

theorem loop_runs_three_steps:
  "loop_while (fdiv 50 1000) curr_time rs w =
     (case update update_rate_seconds (rs 0) w of
        Inl e \<Rightarrow> Some (Inl e)
      | Inr w1 \<Rightarrow>
          (case update update_rate_seconds (rs 1) (end_of_step curr_time w1) of
             Inl e \<Rightarrow> Some (Inl e)
           | Inr w2 \<Rightarrow>
               (case update update_rate_seconds (rs 2) (end_of_step curr_time w2) of
                  Inl e \<Rightarrow> Some (Inl e)
                | Inr w3 \<Rightarrow> Some (Inr (1 / 2 ^ 57, end_of_step curr_time w3)))))
   \<and> 1 / 2 ^ 57 < update_rate_seconds"
  using loop_while_0_05 [of curr_time rs w]
  by (simp add: double_0_05 seconds_value numeral_2_eq_2 cong: sum.case_cong)

section \<open>C9: no spawning while the player is dead\<close>

text \<open>
  C9, as stated, fails: in the step in which the player of \<open>demo_world\<close> dies, the player is
  dead in the state that the collisions leave, the spawner runs on that state, and the
  counter of spawned enemies goes from 5 to 6.
\<close>

theorem spawn_in_fatal_step_counterexample:
  "\<not> player_dead demo_world \<and> totEnemies demo_world = 5
   \<and> map_sum id (player_dead \<circ> settled)
         (move_entities (1 / 60) (Object_values (entities demo_world)) (polled demo_world)) = Inr True
   \<and> map_sum id totEnemies (update (1 / 60) (1 / 2) demo_world) = Inr 6
   \<and> map_sum id player_dead (update (1 / 60) (1 / 2) demo_world) = Inr True"
  by (simp add: player_dead_def polled_def settled_def model_defs demo_defs)

text \<open>
  C9, amended: in every step that a session begins with its player dead, the counter of
  spawned enemies does not grow, and every enemy in the registry after the step was in the
  registry, as an enemy, before it.
\<close>

theorem no_spawn_while_dead:
  assumes re: "reachable w" and dead: "isDead (heap w (player w))"
    and u: "update d r w = Inr w'"
  shows "totEnemies w' \<le> totEnemies w
       \<and> (\<forall>e \<in> set (entities w'). cls (heap w' (snd e)) = Enemy \<longrightarrow>
             e \<in> set (entities w) \<and> cls (heap w (snd e)) = Enemy)"
proof -
  from u obtain w2 where m: "move_entities d (Object_values (entities w)) (polled w) = Inr w2"
    and w': "w' = bookkeeping d (spawn_enemies d r (settled w2))"
    by (rule update_phases)
  let ?s = "settled w2"
  have inv: "allocated w" "enemy_spawner w = None"
    using reachable_invariant [OF re] dead by simp_all
  have ev: "evolves (polled w) ?s" using m by (rule evolves_middle)
  have off: "enemy_spawner ?s = None"
    using ev inv by (simp add: evolves_def polled_fields)
  then have idle: "spawn_enemies d r ?s = ?s" by (simp add: spawn_enemies_def)
  have tot: "totEnemies ?s = totEnemies w"
    using ev by (simp add: evolves_def polled_fields)
  have w'': "w' = bookkeeping d ?s" using w' idle by simp
  show ?thesis
  proof (cases "restart_wanted ?s")
    case True
    then show ?thesis by (simp add: w'' bookkeeping_fields start_fields)
  next
    case False
    have old: "\<forall>e \<in> set (entities ?s). cls (heap ?s (snd e)) = Enemy \<longrightarrow>
             e \<in> set (entities w) \<and> cls (heap w (snd e)) = Enemy"
    proof (intro ballI impI)
      fix e assume e: "e \<in> set (entities ?s)" and c: "cls (heap ?s (snd e)) = Enemy"
      from ev e c have in_w: "e \<in> set (entities w)"
        by (auto simp: evolves_def polled_fields)
      then have "snd e < next_addr w" using inv by (simp add: allocated_def)
      then have "cls (heap ?s (snd e)) = cls (heap w (snd e))"
        using ev by (simp add: evolves_def ages_def polled_fields)
      then show "e \<in> set (entities w) \<and> cls (heap w (snd e)) = Enemy" using in_w c by simp
    qed
    show ?thesis using False old tot by (simp add: w'' bookkeeping_fields)
  qed
qed

theorem no_spawn_while_dead_witness:
  "reachable demo_dead \<and> isDead (heap demo_dead (player demo_dead))
   \<and> (\<exists>w'. update (1 / 60) (1 / 2) demo_dead = Inr w' \<and> totEnemies w' \<le> totEnemies demo_dead)"
proof -
  have r: "reachable demo_dead"
    unfolding demo_dead_def by (intro reachable_play reachable_start)
  have d: "isDead (heap demo_dead (player demo_dead))"
    by (simp add: demo_dead_def play_def model_defs demo_defs)
  obtain w' where u: "update (1 / 60) (1 / 2) demo_dead = Inr w'"
    using Player_update_returns by (simp add: demo_dead_def play_def model_defs demo_defs)
  show ?thesis
    using no_spawn_while_dead [OF r d u] r d u by blast
qed

section \<open>C10: what a collision run leaves alone\<close>




end
